theory Spec2Isabelle
  imports Complex_Main "HOL-Library.Word"
begin

unbundle bit_operations_syntax

section \<open>PCM codec of the live session (src/components/LiveSession.tsx)\<close>

text \<open>
  Samples are the finite values of a \<^verbatim>\<open>Float32Array\<close>. The two arithmetic steps of the
  codec, \<^verbatim>\<open>data[i] * 32768\<close> and \<^verbatim>\<open>dataInt16[i] / 32768.0\<close>, scale by a power of two and
  are exact in double precision, so a sample is modelled as a \<^typ>\<open>real\<close>.
  An \<^verbatim>\<open>Int16Array\<close> element is a \<^typ>\<open>16 word\<close> read with \<^const>\<open>sint\<close>, a
  \<^verbatim>\<open>Uint8Array\<close> element an \<^typ>\<open>8 word\<close>.
\<close>

type_synonym byte = "8 word"
type_synonym int16 = "16 word"

datatype error = RangeError | NotSupportedError | InvalidCharacterError | InvalidStateError

record wire_chunk =
  data :: string
  mimeType :: string

text \<open>Truncation toward zero, the first step of the store into an \<^verbatim>\<open>Int16Array\<close>.\<close>

definition truncate_number :: "real \<Rightarrow> int" where
  "truncate_number x = (if 0 \<le> x then \<lfloor>x\<rfloor> else \<lceil>x\<rceil>)"

text \<open>
  \<^verbatim>\<open>int16[i] = v\<close>: the conversion ToInt16 of ECMAScript for a finite number. The
  truncated value is reduced modulo \<open>2^16\<close>, and a residue from \<open>2^15\<close> on stands for
  the residue minus \<open>2^16\<close>.
\<close>

definition ToInt16 :: "real \<Rightarrow> int" where
  "ToInt16 v =
     (let int16bit = truncate_number v mod 65536
      in if 32768 \<le> int16bit then int16bit - 65536 else int16bit)"

definition store_int16 :: "real \<Rightarrow> int16" where
  "store_int16 v = word_of_int (ToInt16 v)"

text \<open>The loop of \<^verbatim>\<open>createPcmBlob\<close>: \<^verbatim>\<open>int16[i] = data[i] * 32768\<close> for every index.\<close>

definition fill_int16 :: "real list \<Rightarrow> int16 list" where
  "fill_int16 samples = map (\<lambda>s. store_int16 (s * 32768)) samples"

text \<open>
  \<^verbatim>\<open>new Uint8Array(int16.buffer)\<close> (line 14): two bytes for each element, low byte first,
  the byte order of the platforms that browsers run on and the one the spec names.
\<close>

definition bytes_of_int16 :: "int16 \<Rightarrow> byte list" where
  "bytes_of_int16 w = [of_nat (unat w mod 256), of_nat (unat w div 256)]"

definition uint8_view :: "int16 list \<Rightarrow> byte list" where
  "uint8_view ws = concat (map bytes_of_int16 ws)"

text \<open>
  \<^verbatim>\<open>btoa(String.fromCharCode.apply(null, Array.from(uint8)))\<close>: the binary string has one
  character for each byte, and \<^verbatim>\<open>btoa\<close> is the base64 encoding of these bytes with the
  standard alphabet and \<^verbatim>\<open>=\<close> padding.
\<close>

definition b64_alphabet :: string where
  "b64_alphabet = ''ABCDEFGHIJKLMNOPQRSTUVWXYZabcdefghijklmnopqrstuvwxyz0123456789+/''"

definition b64_char :: "nat \<Rightarrow> char" where
  "b64_char n = b64_alphabet ! (n mod 64)"

fun btoa :: "byte list \<Rightarrow> string" where
  "btoa [] = []"
| "btoa [a] =
     [b64_char (unat a div 4), b64_char ((unat a mod 4) * 16), CHR ''='', CHR ''='']"
| "btoa [a, b] =
     [b64_char (unat a div 4), b64_char ((unat a mod 4) * 16 + unat b div 16),
      b64_char ((unat b mod 16) * 4), CHR ''='']"
| "btoa (a # b # c # rest) =
     [b64_char (unat a div 4), b64_char ((unat a mod 4) * 16 + unat b div 16),
      b64_char ((unat b mod 16) * 4 + unat c div 64), b64_char (unat c mod 64)] @ btoa rest"

definition createPcmBlob :: "real list \<Rightarrow> wire_chunk" where
  "createPcmBlob samples =
     (let int16 = fill_int16 samples;
          uint8 = uint8_view int16;
          base64 = btoa uint8
      in \<lparr>data = base64, mimeType = ''audio/pcm;rate=16000''\<rparr>)"


section \<open>Decoding an inbound chunk\<close>

text \<open>
  Modelled from the spec: the value of a character in the base64 alphabet, used by
  \<open>base64ToUint8Array\<close> below, which is not among the sources.
\<close>

fun index_of :: "'a list \<Rightarrow> 'a \<Rightarrow> nat option" where
  "index_of [] c = None"
| "index_of (x # xs) c = (if x = c then Some 0 else map_option Suc (index_of xs c))"

definition b64_value :: "char \<Rightarrow> nat option" where
  "b64_value c = index_of b64_alphabet c"

text \<open>
  Modelled from the spec: \<^verbatim>\<open>base64ToUint8Array\<close> of \<^verbatim>\<open>src/services/utils\<close>, which the
  component imports (line 5) and which is not among the sources. The spec says of the
  inbound payload only that decoding "base64-decodes to bytes"; the model is the base64
  decoding of the standard alphabet with \<^verbatim>\<open>=\<close> padding in the last group of four, and a
  payload that is not of this form raises, as \<^verbatim>\<open>atob\<close> does.
\<close>

fun base64ToUint8Array :: "string \<Rightarrow> error + byte list" where
  "base64ToUint8Array [] = Inr []"
| "base64ToUint8Array (c1 # c2 # c3 # c4 # rest) =
     (if rest = [] \<and> c4 = CHR ''='' then
        (if c3 = CHR ''='' then
           (case (b64_value c1, b64_value c2) of
              (Some v1, Some v2) \<Rightarrow> Inr [of_nat (v1 * 4 + v2 div 16)]
            | _ \<Rightarrow> Inl InvalidCharacterError)
         else
           (case (b64_value c1, b64_value c2, b64_value c3) of
              (Some v1, Some v2, Some v3) \<Rightarrow>
                Inr [of_nat (v1 * 4 + v2 div 16), of_nat ((v2 mod 16) * 16 + v3 div 4)]
            | _ \<Rightarrow> Inl InvalidCharacterError))
      else
        (case (b64_value c1, b64_value c2, b64_value c3, b64_value c4) of
           (Some v1, Some v2, Some v3, Some v4) \<Rightarrow>
             (case base64ToUint8Array rest of
                Inl e \<Rightarrow> Inl e
              | Inr bs \<Rightarrow>
                  Inr (of_nat (v1 * 4 + v2 div 16) # of_nat ((v2 mod 16) * 16 + v3 div 4) #
                       of_nat ((v3 mod 4) * 64 + v4) # bs))
         | _ \<Rightarrow> Inl InvalidCharacterError))"
| "base64ToUint8Array _ = Inl InvalidCharacterError"

text \<open>
  \<^verbatim>\<open>new Int16Array(bytes.buffer)\<close>: a view of the same bytes, two for each element, low
  byte first. The constructor raises a RangeError when the byte length is odd.
\<close>

fun int16_view :: "byte list \<Rightarrow> int16 list" where
  "int16_view (lo # hi # rest) = of_nat (unat lo + 256 * unat hi) # int16_view rest"
| "int16_view _ = []"

definition Int16Array :: "byte list \<Rightarrow> error + int16 list" where
  "Int16Array bytes =
     (if length bytes mod 2 \<noteq> 0 then Inl RangeError else Inr (int16_view bytes))"

record audio_buffer =
  channelData :: "real list"
  sampleRate :: nat

text \<open>
  \<^verbatim>\<open>outputCtx.createBuffer(1, length, 24000)\<close> (line 98): a silent buffer, of which the
  model keeps channel 0. The Web Audio API raises a NotSupportedError when an argument is
  zero, so for a chunk of no samples.
\<close>

definition createBuffer :: "nat \<Rightarrow> nat \<Rightarrow> nat \<Rightarrow> error + audio_buffer" where
  "createBuffer numberOfChannels len rate =
     (if numberOfChannels = 0 \<or> len = 0 \<or> rate = 0 then Inl NotSupportedError
      else Inr \<lparr>channelData = replicate len 0, sampleRate = rate\<rparr>)"

definition duration :: "audio_buffer \<Rightarrow> real" where
  "duration b = real (length (channelData b)) / real (sampleRate b)"

text \<open>The loop \<^verbatim>\<open>channelData[i] = dataInt16[i] / 32768.0\<close>.\<close>

definition fill_channelData :: "int16 list \<Rightarrow> real list" where
  "fill_channelData dataInt16 = map (\<lambda>w. real_of_int (sint w) / 32768) dataInt16"

text \<open>Lines 94 and 97 of the handler: the payload as 16-bit samples.\<close>

definition decode_int16 :: "string \<Rightarrow> error + int16 list" where
  "decode_int16 base64Audio =
     (case base64ToUint8Array base64Audio of
        Inl e \<Rightarrow> Inl e
      | Inr bytes \<Rightarrow> Int16Array bytes)"

text \<open>
  The codec's decoding as the spec names it: the three steps of the handler's decode
  block that compute sample values (base64 to bytes, bytes to 16-bit integers, division
  by 32768), without the allocation of the playback buffer between them.
\<close>

definition decode :: "string \<Rightarrow> error + real list" where
  "decode base64Audio =
     (case decode_int16 base64Audio of
        Inl e \<Rightarrow> Inl e
      | Inr dataInt16 \<Rightarrow> Inr (fill_channelData dataInt16))"

section \<open>The component and its objects\<close>

text \<open>
  The state of \<^verbatim>\<open>LiveSession\<close>: the four \<^verbatim>\<open>useState\<close> values, the refs, and the objects
  the refs and closures point to. Objects with identity live in lists indexed by their
  creation order: the \<^verbatim>\<open>AudioBufferSourceNode\<close>s (\<open>nodes\<close>) and the promises returned by
  \<^verbatim>\<open>ai.live.connect\<close> (\<open>promises\<close>). \<^verbatim>\<open>sourcesRef\<close> is a JavaScript Set of nodes, kept
  in insertion order. A node records the time given to its \<^verbatim>\<open>start\<close> and whether \<^verbatim>\<open>stop\<close>
  was called on it. An audio context is running from its creation until \<^verbatim>\<open>close\<close>.
  \<open>micStreamLive\<close> says that \<^verbatim>\<open>getUserMedia\<close> has handed out a stream; the component keeps
  no reference to it and calls \<^verbatim>\<open>stop\<close> on none of its tracks. \<^verbatim>\<open>sessionRef\<close> is only ever
  assigned \<^verbatim>\<open>null\<close>. Times are seconds of the playback clock, as reals.
  \<open>mounted\<close> says that the component is on the page. React drops a call of a state setter
  of a component that has been unmounted, so the four setters write only while it holds;
  the refs are plain objects and are written whenever the code writes them.
\<close>

datatype context_state = Running | Closed

record source_node =
  node_buffer :: audio_buffer
  startWhen :: real
  stopped :: bool

datatype reaction = SendRealtimeInput wire_chunk | CloseSession

datatype promise_state = Pending | Fulfilled | Rejected

text \<open>
  A promise of a session: the callbacks registered with \<^verbatim>\<open>then\<close> while it is pending, in
  registration order, and the method calls made on the session it has resolved to.
\<close>

record session_promise =
  pstate :: promise_state
  reactions :: "reaction list"
  calls :: "reaction list"

record component =
  isConnected :: bool
  isMuted :: bool
  status :: string
  logs :: "string list"
  audioContextRef :: "context_state option"
  inputContextRef :: "context_state option"
  sessionRef :: "unit option"
  sessionPromiseRef :: "nat option"
  nextStartTimeRef :: real
  sourcesRef :: "nat list"
  nodes :: "source_node list"
  promises :: "session_promise list"
  micStreamLive :: bool
  mounted :: bool

definition init :: component where
  "init = \<lparr>isConnected = False, isMuted = False, status = ''Ready to connect'', logs = [],
            audioContextRef = None, inputContextRef = None, sessionRef = None,
            sessionPromiseRef = None, nextStartTimeRef = 0, sourcesRef = [], nodes = [],
            promises = [], micStreamLive = False, mounted = True\<rparr>"

definition setIsConnected :: "bool \<Rightarrow> component \<Rightarrow> component" where
  "setIsConnected b st = (if mounted st then st\<lparr>isConnected := b\<rparr> else st)"

definition setIsMuted :: "bool \<Rightarrow> component \<Rightarrow> component" where
  "setIsMuted b st = (if mounted st then st\<lparr>isMuted := b\<rparr> else st)"

definition setStatus :: "string \<Rightarrow> component \<Rightarrow> component" where
  "setStatus msg st = (if mounted st then st\<lparr>status := msg\<rparr> else st)"

text \<open>\<^verbatim>\<open>addLog\<close> (line 46): \<^verbatim>\<open>setLogs(prev => [msg, ...prev].slice(0, 5))\<close>.\<close>

definition addLog :: "string \<Rightarrow> component \<Rightarrow> component" where
  "addLog msg st = (if mounted st then st\<lparr>logs := take 5 (msg # logs st)\<rparr> else st)"

text \<open>\<^verbatim>\<open>Set.prototype.add\<close> and \<^verbatim>\<open>delete\<close>.\<close>

definition Set_add :: "nat \<Rightarrow> nat list \<Rightarrow> nat list" where
  "Set_add x xs = (if x \<in> set xs then xs else xs @ [x])"

definition Set_delete :: "nat \<Rightarrow> nat list \<Rightarrow> nat list" where
  "Set_delete x xs = removeAll x xs"

text \<open>
  \<^verbatim>\<open>promise.then(cb)\<close> with a fulfilment callback only: queued while the promise is
  pending, run when it is fulfilled already, never run when it is rejected.
\<close>

definition promise_then :: "nat \<Rightarrow> reaction \<Rightarrow> component \<Rightarrow> component" where
  "promise_then p r st =
     (if p < length (promises st) then
        (let pr = promises st ! p in
         case pstate pr of
           Pending \<Rightarrow> st\<lparr>promises := (promises st)[p := pr\<lparr>reactions := reactions pr @ [r]\<rparr>]\<rparr>
         | Fulfilled \<Rightarrow> st\<lparr>promises := (promises st)[p := pr\<lparr>calls := calls pr @ [r]\<rparr>]\<rparr>
         | Rejected \<Rightarrow> st)
      else st)"

text \<open>The connection is established: the promise is fulfilled and its callbacks run in order.\<close>

definition resolve :: "nat \<Rightarrow> component \<Rightarrow> component" where
  "resolve p st =
     (if p < length (promises st) \<and> pstate (promises st ! p) = Pending then
        (let pr = promises st ! p in
         st\<lparr>promises := (promises st)[p := pr\<lparr>pstate := Fulfilled, reactions := [],
                                                calls := calls pr @ reactions pr\<rparr>]\<rparr>)
      else st)"

text \<open>The connection fails: the promise is rejected and its callbacks are never run.\<close>

definition reject :: "nat \<Rightarrow> component \<Rightarrow> component" where
  "reject p st =
     (if p < length (promises st) \<and> pstate (promises st ! p) = Pending then
        st\<lparr>promises := (promises st)[p := (promises st ! p)\<lparr>pstate := Rejected, reactions := []\<rparr>]\<rparr>
      else st)"

section \<open>Capture\<close>

text \<open>
  \<^verbatim>\<open>scriptProcessor.onaudioprocess\<close>. The callback is created once, inside the call of
  \<^verbatim>\<open>startSession\<close>, and its \<^verbatim>\<open>isMuted\<close> is the constant of the render in which that
  \<^verbatim>\<open>startSession\<close> was created: the first argument. \<^verbatim>\<open>sessionPromiseRef\<close> is a ref and is
  read when the callback runs.
\<close>

definition onaudioprocess :: "bool \<Rightarrow> real list \<Rightarrow> component \<Rightarrow> component" where
  "onaudioprocess isMuted_captured inputData st =
     (if isMuted_captured then st
      else
        (let pcmData = createPcmBlob inputData in
         case sessionPromiseRef st of
           Some p \<Rightarrow> promise_then p (SendRealtimeInput pcmData) st
         | None \<Rightarrow> st))"

text \<open>
  The callback that a call of \<^verbatim>\<open>startSession\<close> registers when the component is in the
  state \<open>at_start\<close>: its \<^verbatim>\<open>isMuted\<close> is the one of that state, whatever the state is when
  the callback fires.
\<close>

definition registered_onaudioprocess :: "component \<Rightarrow> real list \<Rightarrow> component \<Rightarrow> component" where
  "registered_onaudioprocess at_start = onaudioprocess (isMuted at_start)"

text \<open>The mute button: \<^verbatim>\<open>setIsMuted(!isMuted)\<close>.\<close>

definition toggleMute :: "component \<Rightarrow> component" where
  "toggleMute st = setIsMuted (\<not> isMuted st) st"

section \<open>Session callbacks\<close>

definition onopen :: "component \<Rightarrow> component" where
  "onopen st =
     addLog ''Session opened'' (setStatus ''Connected (Gemini 2.5)'' (setIsConnected True st))"

definition onclose :: "component \<Rightarrow> component" where
  "onclose st = setStatus ''Disconnected'' (setIsConnected False st)"

definition onerror :: "component \<Rightarrow> component" where
  "onerror st = addLog ''Error in session'' (setStatus ''Error occurred'' st)"

text \<open>
  The scheduling block of \<^verbatim>\<open>onmessage\<close> (lines 104 to 117), with \<^verbatim>\<open>outputCtx.currentTime\<close>
  as the first argument. The new node is the next entry of \<open>nodes\<close>.
\<close>

definition scheduling_block :: "real \<Rightarrow> audio_buffer \<Rightarrow> component \<Rightarrow> component" where
  "scheduling_block currentTime buffer st =
     (let src = length (nodes st);
          st1 = (if nextStartTimeRef st < currentTime
                 then st\<lparr>nextStartTimeRef := currentTime\<rparr> else st);
          st2 = st1\<lparr>nodes := nodes st1 @
                  [\<lparr>node_buffer = buffer, startWhen = nextStartTimeRef st1, stopped = False\<rparr>]\<rparr>;
          st3 = st2\<lparr>nextStartTimeRef := nextStartTimeRef st2 + duration buffer\<rparr>
      in st3\<lparr>sourcesRef := Set_add src (sourcesRef st3)\<rparr>)"

text \<open>\<^verbatim>\<open>src.onended\<close>: the node leaves the set.\<close>

definition onended :: "nat \<Rightarrow> component \<Rightarrow> component" where
  "onended src st = st\<lparr>sourcesRef := Set_delete src (sourcesRef st)\<rparr>"

definition stop_node :: "source_node list \<Rightarrow> nat \<Rightarrow> source_node list" where
  "stop_node ns s = (if s < length ns then ns[s := (ns ! s)\<lparr>stopped := True\<rparr>] else ns)"

text \<open>The interruption block of \<^verbatim>\<open>onmessage\<close> (lines 122 to 125).\<close>

definition interruption_block :: "component \<Rightarrow> component" where
  "interruption_block st =
     (let st1 = addLog ''Interrupted'' st;
          st2 = st1\<lparr>nodes := foldl stop_node (nodes st1) (sourcesRef st1)\<rparr>;
          st3 = st2\<lparr>sourcesRef := []\<rparr>
      in st3\<lparr>nextStartTimeRef := 0\<rparr>)"

record server_message =
  inlineData :: "string option"
  interrupted :: bool

text \<open>
  \<^verbatim>\<open>onmessage\<close>. The handler has no \<^verbatim>\<open>try\<close>: an exception of the decode block ends it
  there, with the state as it is at that point, and is the first component of the result.
  An absent or empty payload is falsy and skips the audio part.
\<close>

definition onmessage :: "real \<Rightarrow> server_message \<Rightarrow> component \<Rightarrow> error option \<times> component" where
  "onmessage currentTime message st =
     (let handle_interruption =
            (\<lambda>s. (None, if interrupted message then interruption_block s else s))
      in case inlineData message of
           None \<Rightarrow> handle_interruption st
         | Some base64Audio \<Rightarrow>
             if base64Audio = [] then handle_interruption st
             else
               (case base64ToUint8Array base64Audio of
                  Inl e \<Rightarrow> (Some e, st)
                | Inr bytes \<Rightarrow>
                    (case Int16Array bytes of
                       Inl e \<Rightarrow> (Some e, st)
                     | Inr dataInt16 \<Rightarrow>
                         (case createBuffer 1 (length dataInt16) 24000 of
                            Inl e \<Rightarrow> (Some e, st)
                          | Inr buffer \<Rightarrow>
                              handle_interruption
                                (scheduling_block currentTime
                                   (buffer\<lparr>channelData := fill_channelData dataInt16\<rparr>) st)))))"

section \<open>Starting and stopping\<close>

datatype mic_outcome = Granted | Denied string

text \<open>
  \<^verbatim>\<open>startSession\<close>, with the two things it depends on outside the component: whether
  \<^verbatim>\<open>getLiveClient\<close> finds an API key (it raises otherwise) and whether \<^verbatim>\<open>getUserMedia\<close>
  grants the microphone. Either failure is caught and becomes a status message. The
  promise of \<^verbatim>\<open>ai.live.connect\<close> is stored without being awaited. The call is one step of
  the model: no other event is placed between its start and the end of its wait for
  \<^verbatim>\<open>getUserMedia\<close>. The capture callback cannot fire between its registration and the
  assignment of \<^verbatim>\<open>sessionPromiseRef\<close>, which follows without an \<^verbatim>\<open>await\<close>.
\<close>

definition startSession :: "bool \<Rightarrow> mic_outcome \<Rightarrow> component \<Rightarrow> component" where
  "startSession apiKey mic st =
     (let st1 = setStatus ''Connecting...'' st in
      if \<not> apiKey then
        setStatus ''Connection Failed: API Key not found in environment variables.'' st1
      else
        (let st2 = st1\<lparr>audioContextRef := Some Running\<rparr>;
             st3 = st2\<lparr>inputContextRef := Some Running\<rparr>
         in case mic of
              Denied msg \<Rightarrow> setStatus (''Connection Failed: '' @ msg) st3
            | Granted \<Rightarrow>
                (let st4 = st3\<lparr>micStreamLive := True\<rparr>;
                     sessionPromise = length (promises st4);
                     st5 = st4\<lparr>promises := promises st4 @
                             [\<lparr>pstate = Pending, reactions = [], calls = []\<rparr>]\<rparr>
                 in st5\<lparr>sessionPromiseRef := Some sessionPromise\<rparr>)))"

text \<open>
  \<^verbatim>\<open>AudioContext.close()\<close> returns a promise and raises nothing. The context is closed
  afterwards; the promise of a context that was closed already is rejected with an
  InvalidStateError, which is the second component.
\<close>

definition AudioContext_close :: "context_state \<Rightarrow> context_state \<times> error option" where
  "AudioContext_close c =
     (case c of Running \<Rightarrow> (Closed, None) | Closed \<Rightarrow> (Closed, Some InvalidStateError))"

text \<open>
  \<^verbatim>\<open>if (ref.current) ref.current.close()\<close> (lines 161 and 162): the ref keeps pointing to
  the context, and the promise of \<^verbatim>\<open>close\<close> is dropped, so that a rejection stays unhandled.
\<close>

definition close_ref :: "context_state option \<Rightarrow> context_state option \<times> error list" where
  "close_ref r =
     (case r of
        None \<Rightarrow> (None, [])
      | Some c \<Rightarrow>
          (Some (fst (AudioContext_close c)),
           case snd (AudioContext_close c) of None \<Rightarrow> [] | Some e \<Rightarrow> [e]))"

definition close_context :: "context_state option \<Rightarrow> context_state option" where
  "close_context r = fst (close_ref r)"

text \<open>
  \<^verbatim>\<open>stopSession\<close> (lines 155 to 168) with all that a call of it produces: the exception it
  ends with, if any, the rejections of the promises it drops, and the state it leaves.
\<close>

record stop_outcome =
  raised :: "error option"
  unhandled_rejections :: "error list"
  state_after :: component

definition stopSession_run :: "component \<Rightarrow> stop_outcome" where
  "stopSession_run st =
     (let st1 = (case sessionPromiseRef st of
                   Some p \<Rightarrow> promise_then p CloseSession st
                 | None \<Rightarrow> st);
          out = close_ref (audioContextRef st1);
          st2 = st1\<lparr>audioContextRef := fst out\<rparr>;
          inp = close_ref (inputContextRef st2);
          st3 = st2\<lparr>inputContextRef := fst inp\<rparr>;
          st4 = setIsConnected False st3;
          st5 = setStatus ''Ready to connect'' st4;
          st6 = st5\<lparr>sessionRef := None\<rparr>;
          st7 = st6\<lparr>sessionPromiseRef := None\<rparr>
      in \<lparr>raised = None, unhandled_rejections = snd out @ snd inp, state_after = st7\<rparr>)"

definition stopSession :: "component \<Rightarrow> component" where
  "stopSession st = state_after (stopSession_run st)"

text \<open>
  The cleanup of the effect (lines 171 to 175): React calls \<^verbatim>\<open>stopSession\<close> when it takes
  the component off the page, and from then on drops what the setters are given.
\<close>

definition unmount :: "component \<Rightarrow> component" where
  "unmount st = stopSession (st\<lparr>mounted := False\<rparr>)"

section \<open>Runs of the handlers\<close>

text \<open>A sequence of audio chunks: each buffer with the clock time at which it is handled.\<close>

fun schedule_all :: "(real \<times> audio_buffer) list \<Rightarrow> component \<Rightarrow> component" where
  "schedule_all [] st = st"
| "schedule_all ((t, b) # rest) st = schedule_all rest (scheduling_block t b st)"

text \<open>The start times given to the nodes that a run of \<open>schedule_all\<close> creates, in order.\<close>

definition start_times :: "(real \<times> audio_buffer) list \<Rightarrow> component \<Rightarrow> real list" where
  "start_times arrivals st =
     map startWhen (drop (length (nodes st)) (nodes (schedule_all arrivals st)))"

text \<open>A sequence of capture callbacks of one script processor.\<close>

fun capture_all :: "bool \<Rightarrow> real list list \<Rightarrow> component \<Rightarrow> component" where
  "capture_all m [] st = st"
| "capture_all m (f # fs) st = capture_all m fs (onaudioprocess m f st)"

text \<open>
  Everything that can happen to the component: the three buttons and the unmount cleanup,
  the capture callback of some session (with the \<^verbatim>\<open>isMuted\<close> it has captured), the
  settling of a connection promise, the four session callbacks (the message with the clock
  time at which it is handled) and the end of a node's playback. A run applies a list of
  events in order; an exception of the message handler ends that handler only.
\<close>

datatype event =
    StartSession bool mic_outcome
  | StopSession
  | ToggleMute
  | AudioProcess bool "real list"
  | Resolve nat
  | Reject nat
  | OnOpen
  | OnMessage real server_message
  | OnClose
  | OnError
  | OnEnded nat
  | Unmount

fun step :: "event \<Rightarrow> component \<Rightarrow> component" where
  "step (StartSession apiKey mic) st = startSession apiKey mic st"
| "step StopSession st = stopSession st"
| "step ToggleMute st = toggleMute st"
| "step (AudioProcess isMuted_captured inputData) st = onaudioprocess isMuted_captured inputData st"
| "step (Resolve p) st = resolve p st"
| "step (Reject p) st = reject p st"
| "step OnOpen st = onopen st"
| "step (OnMessage currentTime message) st = snd (onmessage currentTime message st)"
| "step OnClose st = onclose st"
| "step OnError st = onerror st"
| "step (OnEnded src) st = onended src st"
| "step Unmount st = unmount st"

fun run :: "event list \<Rightarrow> component \<Rightarrow> component" where
  "run [] st = st"
| "run (e # es) st = run es (step e st)"

text \<open>
  What the page offers (lines 188 to 212): the start button is rendered while the component
  is not connected, the mute button and the button that ends the call while it is
  connected, and a component is unmounted once. The other events come from the browser and
  the session. \<open>ui_run\<close> is a run in which every event was on offer when it happened.
\<close>

fun enabled :: "event \<Rightarrow> component \<Rightarrow> bool" where
  "enabled (StartSession apiKey mic) st = (mounted st \<and> \<not> isConnected st)"
| "enabled StopSession st = (mounted st \<and> isConnected st)"
| "enabled ToggleMute st = (mounted st \<and> isConnected st)"
| "enabled Unmount st = mounted st"
| "enabled e st = True"

fun ui_run :: "event list \<Rightarrow> component \<Rightarrow> component option" where
  "ui_run [] st = Some st"
| "ui_run (e # es) st = (if enabled e st then ui_run es (step e st) else None)"

text \<open>
  What every reachable state satisfies: the active set holds nodes that exist, each once;
  the session promise ref points to a promise that exists; \<^verbatim>\<open>nextStartTimeRef\<close> is not
  negative.
\<close>

definition well_formed :: "component \<Rightarrow> bool" where
  "well_formed st \<longleftrightarrow>
     list_all (\<lambda>s. s < length (nodes st)) (sourcesRef st) \<and> distinct (sourcesRef st)
     \<and> (case sessionPromiseRef st of None \<Rightarrow> True | Some p \<Rightarrow> p < length (promises st))
     \<and> 0 \<le> nextStartTimeRef st"

section \<open>Lemmas on the codec\<close>

lemma truncate_number_cases:
  "truncate_number x = (if 0 \<le> x then \<lfloor>x\<rfloor> else - \<lfloor>- x\<rfloor>)"
  by (simp add: truncate_number_def ceiling_def)

lemma ToInt16_range: "- 32768 \<le> ToInt16 v \<and> ToInt16 v \<le> 32767"
proof -
  have "0 \<le> truncate_number v mod 65536" "truncate_number v mod 65536 < 65536"
    by simp_all
  then show ?thesis
    by (auto simp: ToInt16_def Let_def)
qed

lemma ToInt16_cong: "(ToInt16 v - truncate_number v) mod 65536 = 0"
proof -
  define t where "t = truncate_number v"
  have eq: "t mod 65536 - t = - (65536 * (t div 65536))"
    using mult_div_mod_eq [of 65536 t] by linarith
  have "(t mod 65536 - t) mod 65536 = 0"
    unfolding eq by simp
  moreover have "(t mod 65536 - 65536 - t) mod 65536 = 0"
  proof -
    have "t mod 65536 - 65536 - t = 65536 * (- (t div 65536) - 1)"
      using eq by (simp add: algebra_simps)
    then show ?thesis by (metis mod_mult_self1_is_0)
  qed
  ultimately show ?thesis
    by (simp add: ToInt16_def Let_def t_def)
qed

lemma ToInt16_in_range:
  assumes "- 32768 \<le> truncate_number v" and "truncate_number v \<le> 32767"
  shows "ToInt16 v = truncate_number v"
proof (cases "0 \<le> truncate_number v")
  case True
  with assms have "truncate_number v mod 65536 = truncate_number v"
    by (intro mod_pos_pos_trivial) simp_all
  with assms show ?thesis
    by (simp add: ToInt16_def Let_def)
next
  case False
  define t where "t = truncate_number v"
  from False assms have neg: "t < 0" "- 32768 \<le> t" by (simp_all add: t_def)
  have "(t + 65536) mod 65536 = t + 65536"
    using neg by (intro mod_pos_pos_trivial) simp_all
  then have "t mod 65536 = t + 65536"
    by simp
  with neg show ?thesis
    by (simp add: ToInt16_def Let_def t_def [symmetric])
qed

lemma sint_store_int16: "sint (store_int16 v) = ToInt16 v"
proof -
  have "signed_take_bit 15 (ToInt16 v) = ToInt16 v"
    using ToInt16_range [of v] by (intro signed_take_bit_int_eq_self) simp_all
  then show ?thesis
    by (simp add: store_int16_def sint_sbintrunc')
qed

lemma unat_byte_of_nat: "n < 256 \<Longrightarrow> unat (of_nat n :: byte) = n"
  by (simp add: unat_of_nat)

lemma int16_view_bytes: "int16_view (bytes_of_int16 w @ rest) = w # int16_view rest"
proof -
  have "unat w < 2 ^ 16" using unsigned_less [of w, where 'a = nat] by simp
  then have "unat w div 256 < 256" by simp
  then have "unat (of_nat (unat w div 256) :: byte) = unat w div 256"
    by (rule unat_byte_of_nat)
  moreover have "unat (of_nat (unat w mod 256) :: byte) = unat w mod 256"
    by (rule unat_byte_of_nat) simp
  ultimately show ?thesis
    by (simp add: bytes_of_int16_def)
qed

lemma int16_view_uint8_view: "int16_view (uint8_view ws) = ws"
  by (induction ws) (simp_all add: uint8_view_def int16_view_bytes)

lemma length_uint8_view: "length (uint8_view ws) = 2 * length ws"
  by (induction ws) (simp_all add: uint8_view_def bytes_of_int16_def)

lemma Int16Array_uint8_view: "Int16Array (uint8_view ws) = Inr ws"
  by (simp add: Int16Array_def length_uint8_view int16_view_uint8_view)

subsection \<open>Base64\<close>

lemma index_of_nth: "distinct xs \<Longrightarrow> i < length xs \<Longrightarrow> index_of xs (xs ! i) = Some i"
proof (induction xs arbitrary: i)
  case Nil
  then show ?case by simp
next
  case (Cons x xs)
  show ?case
  proof (cases i)
    case 0
    then show ?thesis by simp
  next
    case (Suc j)
    with Cons.prems have "xs ! j \<in> set xs" "x \<notin> set xs" "distinct xs" "j < length xs"
      by simp_all
    then have "x \<noteq> xs ! j" "index_of xs (xs ! j) = Some j"
      using Cons.IH by auto
    with Suc show ?thesis by simp
  qed
qed

lemma index_of_None: "c \<notin> set xs \<Longrightarrow> index_of xs c = None"
  by (induction xs) auto

lemma length_b64_alphabet: "length b64_alphabet = 64"
  by (simp add: b64_alphabet_def)

lemma distinct_b64_alphabet: "distinct b64_alphabet"
  by (simp add: b64_alphabet_def)

lemma pad_not_in_alphabet: "CHR ''='' \<notin> set b64_alphabet"
  by (simp add: b64_alphabet_def)

lemma b64_value_char: "n < 64 \<Longrightarrow> b64_value (b64_char n) = Some n"
  by (simp add: b64_value_def b64_char_def index_of_nth distinct_b64_alphabet length_b64_alphabet)

lemma b64_char_not_pad: "b64_char n \<noteq> CHR ''=''"
proof -
  have "b64_char n \<in> set b64_alphabet"
    by (simp add: b64_char_def length_b64_alphabet)
  with pad_not_in_alphabet show ?thesis by metis
qed

lemma sextet_bounds:
  fixes a b c :: nat
  assumes "a < 256" "b < 256" "c < 256"
  shows "a div 4 < 64" "(a mod 4) * 16 + b div 16 < 64" "(b mod 16) * 4 + c div 64 < 64"
    "c mod 64 < 64" "(a mod 4) * 16 < 64" "(b mod 16) * 4 < 64"
proof -
  have "a mod 4 < 4" "b mod 16 < 16" by simp_all
  moreover have "a div 4 < 64" "b div 16 < 16" "c div 64 < 4" using assms by simp_all
  ultimately show "a div 4 < 64" "(a mod 4) * 16 + b div 16 < 64"
    "(b mod 16) * 4 + c div 64 < 64" "c mod 64 < 64" "(a mod 4) * 16 < 64" "(b mod 16) * 4 < 64"
    by simp_all
qed

lemma sextet_bytes:
  fixes a b c :: nat
  assumes "a < 256" "b < 256" "c < 256"
  shows "a div 4 * 4 + ((a mod 4) * 16 + b div 16) div 16 = a"
    "(((a mod 4) * 16 + b div 16) mod 16) * 16 + ((b mod 16) * 4 + c div 64) div 4 = b"
    "(((b mod 16) * 4 + c div 64) mod 4) * 64 + c mod 64 = c"
    "a div 4 * 4 + ((a mod 4) * 16) div 16 = a"
    "(((a mod 4) * 16 + b div 16) mod 16) * 16 + ((b mod 16) * 4) div 4 = b"
proof -
  have small: "b div 16 < 16" "c div 64 < 4" using assms by simp_all
  then have d: "b div 16 div 16 = 0" "c div 64 div 4 = 0" "b div 16 mod 16 = b div 16"
    "c div 64 mod 4 = c div 64"
    by simp_all
  show "a div 4 * 4 + ((a mod 4) * 16 + b div 16) div 16 = a"
    using d by simp
  show "(((a mod 4) * 16 + b div 16) mod 16) * 16 + ((b mod 16) * 4 + c div 64) div 4 = b"
    using d by simp
  show "(((b mod 16) * 4 + c div 64) mod 4) * 64 + c mod 64 = c"
    using d by simp
  show "a div 4 * 4 + ((a mod 4) * 16) div 16 = a"
    by simp
  show "(((a mod 4) * 16 + b div 16) mod 16) * 16 + ((b mod 16) * 4) div 4 = b"
    using d by simp
qed

lemma unat_byte_less: "unat (a :: byte) < 256"
  using unsigned_less [of a, where 'a = nat] by simp

lemma decode_pad2:
  "base64ToUint8Array [b64_char (unat a div 4), b64_char ((unat a mod 4) * 16), CHR ''='', CHR ''='']
     = Inr [a]"
  using sextet_bounds [OF unat_byte_less [of a] unat_byte_less [of a] unat_byte_less [of a]]
    sextet_bytes [OF unat_byte_less [of a] unat_byte_less [of a] unat_byte_less [of a]]
  by (simp add: b64_value_char)

lemma decode_pad1:
  "base64ToUint8Array [b64_char (unat a div 4), b64_char ((unat a mod 4) * 16 + unat b div 16),
      b64_char ((unat b mod 16) * 4), CHR ''=''] = Inr [a, b]"
  using sextet_bounds [OF unat_byte_less [of a] unat_byte_less [of b] unat_byte_less [of b]]
    sextet_bytes [OF unat_byte_less [of a] unat_byte_less [of b] unat_byte_less [of b]]
  by (simp add: b64_value_char b64_char_not_pad)

lemma decode_group:
  "base64ToUint8Array
     (b64_char (unat a div 4) # b64_char ((unat a mod 4) * 16 + unat b div 16) #
      b64_char ((unat b mod 16) * 4 + unat c div 64) # b64_char (unat c mod 64) # rest)
   = (case base64ToUint8Array rest of Inl e \<Rightarrow> Inl e | Inr bs \<Rightarrow> Inr (a # b # c # bs))"
proof -
  note bnd = sextet_bounds [OF unat_byte_less [of a] unat_byte_less [of b] unat_byte_less [of c]]
  note byt = sextet_bytes [OF unat_byte_less [of a] unat_byte_less [of b] unat_byte_less [of c]]
  have v: "b64_value (b64_char (unat a div 4)) = Some (unat a div 4)"
    "b64_value (b64_char ((unat a mod 4) * 16 + unat b div 16)) = Some ((unat a mod 4) * 16 + unat b div 16)"
    "b64_value (b64_char ((unat b mod 16) * 4 + unat c div 64)) = Some ((unat b mod 16) * 4 + unat c div 64)"
    "b64_value (b64_char (unat c mod 64)) = Some (unat c mod 64)"
    using bnd by (simp_all only: b64_value_char)
  have w: "(of_nat (unat a div 4 * 4 + ((unat a mod 4) * 16 + unat b div 16) div 16) :: byte) = a"
    "(of_nat ((((unat a mod 4) * 16 + unat b div 16) mod 16) * 16 +
        ((unat b mod 16) * 4 + unat c div 64) div 4) :: byte) = b"
    "(of_nat ((((unat b mod 16) * 4 + unat c div 64) mod 4) * 64 + unat c mod 64) :: byte) = c"
    by (simp_all only: byt of_nat_unat ucast_id)
  show ?thesis
    by (simp only: base64ToUint8Array.simps v w b64_char_not_pad simp_thms if_False
        option.case prod.case)
qed

lemma base64_roundtrip: "base64ToUint8Array (btoa bs) = Inr bs"
proof (induction bs rule: btoa.induct)
  case 1
  show ?case by simp
next
  case (2 a)
  show ?case unfolding btoa.simps by (rule decode_pad2)
next
  case (3 a b)
  show ?case unfolding btoa.simps by (rule decode_pad1)
next
  case (4 a b c rest)
  have "base64ToUint8Array (btoa (a # b # c # rest))
      = (case base64ToUint8Array (btoa rest) of Inl e \<Rightarrow> Inl e | Inr bs \<Rightarrow> Inr (a # b # c # bs))"
    unfolding btoa.simps append_Cons append_Nil by (rule decode_group)
  with 4 show ?case by simp
qed

subsection \<open>Quantisation\<close>

lemma ToInt16_formula: "ToInt16 v = (truncate_number v + 32768) mod 65536 - 32768"
proof -
  define m where "m = truncate_number v mod 65536"
  have m: "0 \<le> m" "m < 65536" by (simp_all add: m_def)
  have "(truncate_number v + 32768) mod 65536 = (m + 32768) mod 65536"
    unfolding m_def by (rule mod_add_left_eq [symmetric])
  also have "\<dots> = (if 32768 \<le> m then m - 32768 else m + 32768)"
  proof (cases "32768 \<le> m")
    case True
    have "m + 32768 = m - 32768 + 65536" by simp
    then have "(m + 32768) mod 65536 = (m - 32768 + 65536) mod 65536" by (rule arg_cong)
    also have "\<dots> = (m - 32768) mod 65536" by (simp only: mod_add_self2)
    also have "\<dots> = m - 32768" using True m by (intro mod_pos_pos_trivial) simp_all
    finally show ?thesis using True by simp
  next
    case False
    then have "(m + 32768) mod 65536 = m + 32768"
      using m by (intro mod_pos_pos_trivial) simp_all
    with False show ?thesis by simp
  qed
  finally show ?thesis
    by (simp add: ToInt16_def Let_def m_def [symmetric])
qed

lemma truncate_number_of_int: "truncate_number (of_int k) = k"
  by (simp add: truncate_number_def)

lemma truncate_number_error: "\<bar>real_of_int (truncate_number y) - y\<bar> < 1"
  unfolding truncate_number_def by (simp split: if_splits) linarith

lemma store_sint: "store_int16 (real_of_int (sint w) / 32768 * 32768) = w"
proof -
  have r: "- 32768 \<le> sint w" "sint w \<le> 32767"
    using sint_ge [of w] sint_lt [of w] by simp_all
  have "ToInt16 (real_of_int (sint w)) = truncate_number (real_of_int (sint w))"
    using r by (intro ToInt16_in_range) (simp_all only: truncate_number_of_int)
  then have "ToInt16 (real_of_int (sint w)) = sint w"
    by (simp only: truncate_number_of_int)
  moreover have "real_of_int (sint w) / 32768 * 32768 = real_of_int (sint w)"
    by simp
  moreover have "(word_of_int (sint w) :: int16) = w"
    by simp
  ultimately show ?thesis
    by (simp only: store_int16_def)
qed

lemma fill_int16_fill_channelData: "fill_int16 (fill_channelData ws) = ws"
proof -
  have "map (\<lambda>w. store_int16 (real_of_int (sint w) / 32768 * 32768)) ws = ws"
    by (simp only: store_sint map_ident)
  then show ?thesis
    by (simp only: fill_int16_def fill_channelData_def map_map o_def)
qed

lemma fill_channelData_fill_int16:
  "fill_channelData (fill_int16 s) = map (\<lambda>x. real_of_int (ToInt16 (x * 32768)) / 32768) s"
  by (simp only: fill_int16_def fill_channelData_def map_map o_def sint_store_int16)

lemma decode_createPcmBlob:
  "decode (data (createPcmBlob s)) = Inr (map (\<lambda>x. real_of_int (ToInt16 (x * 32768)) / 32768) s)"
  by (simp add: decode_def decode_int16_def createPcmBlob_def base64_roundtrip
      Int16Array_uint8_view fill_channelData_fill_int16)

lemma truncate_number_toward_zero:
  "\<bar>real_of_int (truncate_number x)\<bar> \<le> \<bar>x\<bar>"
  "\<bar>x\<bar> < \<bar>real_of_int (truncate_number x)\<bar> + 1"
  "0 \<le> real_of_int (truncate_number x) * x"
proof -
  show "\<bar>real_of_int (truncate_number x)\<bar> \<le> \<bar>x\<bar>"
    unfolding truncate_number_def by (simp split: if_splits)
  show "\<bar>x\<bar> < \<bar>real_of_int (truncate_number x)\<bar> + 1"
    unfolding truncate_number_def by (simp split: if_splits) linarith
  show "0 \<le> real_of_int (truncate_number x) * x"
  proof (cases "0 \<le> x")
    case True
    then show ?thesis by (simp add: truncate_number_def)
  next
    case False
    then have "\<lceil>x\<rceil> \<le> 0" by (simp add: ceiling_le_zero)
    with False show ?thesis
      by (simp add: truncate_number_def mult_nonpos_nonpos)
  qed
qed

section \<open>Lemmas on the playback scheduler\<close>

lemmas setters = setIsConnected_def setIsMuted_def setStatus_def addLog_def

lemma duration_nonneg: "0 \<le> duration b"
  by (simp add: duration_def)

lemma nodes_scheduling_block:
  "nodes (scheduling_block t b st) =
     nodes st @ [\<lparr>node_buffer = b, startWhen = max (nextStartTimeRef st) t, stopped = False\<rparr>]"
  by (simp add: scheduling_block_def Let_def max_def)

lemma nextStartTimeRef_scheduling_block:
  "nextStartTimeRef (scheduling_block t b st) = max (nextStartTimeRef st) t + duration b"
  by (simp add: scheduling_block_def Let_def max_def)

lemma sourcesRef_scheduling_block:
  "sourcesRef (scheduling_block t b st) = Set_add (length (nodes st)) (sourcesRef st)"
  by (simp add: scheduling_block_def Let_def)

lemma nodes_schedule_all:
  "length (nodes (schedule_all as st)) = length (nodes st) + length as
   \<and> take (length (nodes st)) (nodes (schedule_all as st)) = nodes st"
proof (induction as arbitrary: st)
  case Nil
  show ?case by simp
next
  case (Cons a as)
  obtain t b where a: "a = (t, b)" by (cases a)
  let ?st' = "scheduling_block t b st"
  from Cons.IH [of ?st'] have len: "length (nodes (schedule_all as ?st')) = length (nodes ?st') + length as"
    and tk: "take (length (nodes ?st')) (nodes (schedule_all as ?st')) = nodes ?st'"
    by simp_all
  have "take (length (nodes st)) (nodes (schedule_all as ?st'))
      = take (length (nodes st)) (take (length (nodes ?st')) (nodes (schedule_all as ?st')))"
    by (simp add: nodes_scheduling_block min_def)
  also have "\<dots> = nodes st"
    unfolding tk by (simp add: nodes_scheduling_block)
  finally show ?case
    using len by (simp add: a nodes_scheduling_block)
qed

lemma start_times_Nil: "start_times [] st = []"
  by (simp add: start_times_def)

lemma start_times_Cons:
  "start_times ((t, b) # rest) st =
     max (nextStartTimeRef st) t # start_times rest (scheduling_block t b st)"
proof -
  let ?st' = "scheduling_block t b st"
  let ?ns = "nodes (schedule_all rest ?st')"
  let ?node = "\<lparr>node_buffer = b, startWhen = max (nextStartTimeRef st) t, stopped = False\<rparr>"
  have tk: "take (length (nodes ?st')) ?ns = nodes ?st'"
    using nodes_schedule_all [of rest ?st'] by simp
  have "?ns = take (length (nodes ?st')) ?ns @ drop (length (nodes ?st')) ?ns"
    by simp
  then have split: "?ns = nodes st @ ?node # drop (Suc (length (nodes st))) ?ns"
    unfolding tk by (simp add: nodes_scheduling_block)
  have "drop (length (nodes st)) ?ns = ?node # drop (Suc (length (nodes st))) ?ns"
    by (subst split) simp
  then show ?thesis
    by (simp add: start_times_def nodes_scheduling_block)
qed

lemma length_start_times: "length (start_times as st) = length as"
  using nodes_schedule_all [of as st] by (simp add: start_times_def)

lemma start_times_Suc:
  "Suc n < length as \<Longrightarrow>
   start_times as st ! Suc n =
     max (start_times as st ! n + duration (snd (as ! n))) (fst (as ! Suc n))"
proof (induction as arbitrary: st n)
  case Nil
  then show ?case by simp
next
  case (Cons a as)
  obtain t b where a: "a = (t, b)" by (cases a)
  show ?case
  proof (cases n)
    case 0
    with Cons.prems obtain t1 b1 rest where as: "as = (t1, b1) # rest"
      by (cases as) auto
    show ?thesis
      by (simp add: 0 a as start_times_Cons nextStartTimeRef_scheduling_block)
  next
    case (Suc m)
    with Cons.prems have "Suc m < length as" by simp
    from Cons.IH [OF this] show ?thesis
      by (simp add: Suc a start_times_Cons)
  qed
qed

lemma start_times_0:
  "0 < length as \<Longrightarrow> start_times as st ! 0 = max (nextStartTimeRef st) (fst (as ! 0))"
  by (cases as) (auto simp: start_times_Cons)

lemma start_times_not_past: "n < length as \<Longrightarrow> fst (as ! n) \<le> start_times as st ! n"
proof (cases n)
  case 0
  assume "n < length as"
  with 0 show ?thesis by (simp add: start_times_0)
next
  case (Suc m)
  assume "n < length as"
  with Suc show ?thesis by (simp add: start_times_Suc)
qed

lemma length_stop_node: "length (stop_node ns s) = length ns"
  by (simp add: stop_node_def)

lemma nth_stop_node:
  "i < length ns \<Longrightarrow> stop_node ns s ! i = (if i = s then (ns ! i)\<lparr>stopped := True\<rparr> else ns ! i)"
  by (simp add: stop_node_def)

lemma length_foldl_stop_node: "length (foldl stop_node ns xs) = length ns"
  by (induction xs arbitrary: ns) (simp_all add: length_stop_node)

lemma nth_foldl_stop_node:
  "i < length ns \<Longrightarrow>
   foldl stop_node ns xs ! i = (if i \<in> set xs then (ns ! i)\<lparr>stopped := True\<rparr> else ns ! i)"
proof (induction xs arbitrary: ns)
  case Nil
  show ?case by simp
next
  case (Cons x xs)
  from Cons.prems have "i < length (stop_node ns x)"
    by (simp add: length_stop_node)
  from Cons.IH [OF this] Cons.prems show ?case
    by (simp add: nth_stop_node)
qed

lemma foldl_stop_node_Nil: "foldl stop_node ns [] = ns"
  by simp

lemma interruption_block_fields:
  "sourcesRef (interruption_block st) = []"
  "nextStartTimeRef (interruption_block st) = 0"
  "nodes (interruption_block st) = foldl stop_node (nodes st) (sourcesRef st)"
  by (simp_all add: interruption_block_def addLog_def Let_def)

lemma interruption_block_empty:
  "sourcesRef st = [] \<Longrightarrow>
   interruption_block st = addLog ''Interrupted'' (st\<lparr>nextStartTimeRef := 0\<rparr>)"
  by (simp add: interruption_block_def addLog_def Let_def)

section \<open>Lemmas on capture and teardown\<close>

lemma onaudioprocess_pending:
  assumes "sessionPromiseRef st = Some p" "p < length (promises st)"
    "pstate (promises st ! p) = Pending"
  shows "onaudioprocess False f st =
    st\<lparr>promises := (promises st)[p := (promises st ! p)
          \<lparr>reactions := reactions (promises st ! p) @ [SendRealtimeInput (createPcmBlob f)]\<rparr>]\<rparr>"
  using assms by (simp add: onaudioprocess_def promise_then_def Let_def)

lemma capture_all_pending:
  assumes "sessionPromiseRef st = Some p" "p < length (promises st)"
    "pstate (promises st ! p) = Pending"
  shows "capture_all False fs st =
    st\<lparr>promises := (promises st)[p := (promises st ! p)
          \<lparr>reactions := reactions (promises st ! p) @
             map (\<lambda>f. SendRealtimeInput (createPcmBlob f)) fs\<rparr>]\<rparr>"
  using assms
proof (induction fs arbitrary: st)
  case Nil
  show ?case by simp
next
  case (Cons f fs)
  let ?st1 = "onaudioprocess False f st"
  have st1: "?st1 = st\<lparr>promises := (promises st)[p := (promises st ! p)
          \<lparr>reactions := reactions (promises st ! p) @ [SendRealtimeInput (createPcmBlob f)]\<rparr>]\<rparr>"
    using Cons.prems by (rule onaudioprocess_pending)
  have "sessionPromiseRef ?st1 = Some p" "p < length (promises ?st1)"
    "pstate (promises ?st1 ! p) = Pending"
    using Cons.prems by (simp_all add: st1)
  from Cons.IH [OF this] show ?case
    using Cons.prems by (simp add: st1)
qed

lemma capture_all_muted: "capture_all True fs st = st"
  by (induction fs arbitrary: st) (simp_all add: onaudioprocess_def)

lemma capture_all_no_promise: "sessionPromiseRef st = None \<Longrightarrow> capture_all m fs st = st"
  by (induction fs arbitrary: st) (simp_all add: onaudioprocess_def)





lemma promise_then_fields:
  "isConnected (promise_then p r st) = isConnected st"
  "isMuted (promise_then p r st) = isMuted st"
  "status (promise_then p r st) = status st"
  "logs (promise_then p r st) = logs st"
  "audioContextRef (promise_then p r st) = audioContextRef st"
  "inputContextRef (promise_then p r st) = inputContextRef st"
  "sessionRef (promise_then p r st) = sessionRef st"
  "sessionPromiseRef (promise_then p r st) = sessionPromiseRef st"
  "nextStartTimeRef (promise_then p r st) = nextStartTimeRef st"
  "sourcesRef (promise_then p r st) = sourcesRef st"
  "nodes (promise_then p r st) = nodes st"
  "micStreamLive (promise_then p r st) = micStreamLive st"
  "mounted (promise_then p r st) = mounted st"
  by (simp_all add: promise_then_def Let_def split: promise_state.split)

lemma stopSession_fields:
  "sessionRef (stopSession st) = None"
  "sessionPromiseRef (stopSession st) = None"
  "audioContextRef (stopSession st) = close_context (audioContextRef st)"
  "inputContextRef (stopSession st) = close_context (inputContextRef st)"
  "nextStartTimeRef (stopSession st) = nextStartTimeRef st"
  "sourcesRef (stopSession st) = sourcesRef st"
  "nodes (stopSession st) = nodes st"
  "micStreamLive (stopSession st) = micStreamLive st"
  "isMuted (stopSession st) = isMuted st"
  "logs (stopSession st) = logs st"
  "mounted (stopSession st) = mounted st"
  by (simp_all add: stopSession_def stopSession_run_def close_context_def setters Let_def
      promise_then_fields split: option.split)


lemma stopSession_unmounted:
  assumes "\<not> mounted st"
  shows "isConnected (stopSession st) = isConnected st" "status (stopSession st) = status st"
  using assms
  by (simp_all add: stopSession_def stopSession_run_def setters Let_def promise_then_fields
      split: option.split)






lemma unmount_fields:
  "mounted (unmount st) = False"
  "isConnected (unmount st) = isConnected st"
  "status (unmount st) = status st"
  "logs (unmount st) = logs st"
  "isMuted (unmount st) = isMuted st"
  "sessionRef (unmount st) = None"
  "sessionPromiseRef (unmount st) = None"
  "audioContextRef (unmount st) = close_context (audioContextRef st)"
  "inputContextRef (unmount st) = close_context (inputContextRef st)"
  "nextStartTimeRef (unmount st) = nextStartTimeRef st"
  "sourcesRef (unmount st) = sourcesRef st"
  "nodes (unmount st) = nodes st"
  by (simp_all add: unmount_def stopSession_fields stopSession_unmounted)



lemma resolve_pending:
  assumes "p < length (promises st)" "pstate (promises st ! p) = Pending"
  shows "calls (promises (resolve p st) ! p) = calls (promises st ! p) @ reactions (promises st ! p)"
    and "pstate (promises (resolve p st) ! p) = Fulfilled"
  using assms by (simp_all add: resolve_def Let_def)

lemma startSession_granted:
  "mounted st \<Longrightarrow> startSession True Granted st =
     st\<lparr>status := ''Connecting...'', audioContextRef := Some Running,
        inputContextRef := Some Running, micStreamLive := True,
        promises := promises st @ [\<lparr>pstate = Pending, reactions = [], calls = []\<rparr>],
        sessionPromiseRef := Some (length (promises st))\<rparr>"
  by (simp add: startSession_def setters Let_def)


lemma createPcmBlob_silent_sample:
  "createPcmBlob [0] = \<lparr>data = ''AAA='', mimeType = ''audio/pcm;rate=16000''\<rparr>"
  by (simp add: createPcmBlob_def fill_int16_def uint8_view_def bytes_of_int16_def
      store_int16_def ToInt16_def truncate_number_def b64_char_def b64_alphabet_def)





lemma promise_then_toggleMute:
  "promise_then p r (toggleMute st) = toggleMute (promise_then p r st)"
  by (simp add: promise_then_def toggleMute_def setters Let_def split: promise_state.split)

lemma onaudioprocess_toggleMute:
  "onaudioprocess m f (toggleMute st) = toggleMute (onaudioprocess m f st)"
proof (cases "sessionPromiseRef st")
  case None
  then show ?thesis
    by (simp add: onaudioprocess_def toggleMute_def setters)
next
  case (Some p)
  then have "sessionPromiseRef (toggleMute st) = Some p"
    by (simp add: toggleMute_def setters)
  with Some show ?thesis
    by (simp add: onaudioprocess_def promise_then_toggleMute)
qed

section \<open>Lemmas on the message handler\<close>

lemma onmessage_interruption_only:
  "onmessage t \<lparr>inlineData = None, interrupted = True\<rparr> st = (None, interruption_block st)"
  by (simp add: onmessage_def)

lemma onmessage_silent_sample:
  "onmessage t \<lparr>inlineData = Some ''AAA='', interrupted = False\<rparr> st =
     (None, scheduling_block t \<lparr>channelData = [0], sampleRate = 24000\<rparr> st)"
  by (simp add: onmessage_def b64_value_def b64_alphabet_def Int16Array_def createBuffer_def
      fill_channelData_def)

lemma onmessage_one_byte:
  "onmessage t \<lparr>inlineData = Some ''AA=='', interrupted = i\<rparr> st = (Some RangeError, st)"
  by (simp add: onmessage_def b64_value_def b64_alphabet_def Int16Array_def)

lemma onmessage_decoded:
  assumes "inlineData m = Some b64" "b64 \<noteq> []" "decode_int16 b64 = Inr ws" "ws \<noteq> []"
  shows "onmessage t m st =
    (None, if interrupted m
           then interruption_block
                  (scheduling_block t \<lparr>channelData = fill_channelData ws, sampleRate = 24000\<rparr> st)
           else scheduling_block t \<lparr>channelData = fill_channelData ws, sampleRate = 24000\<rparr> st)"
  using assms
  by (auto simp: onmessage_def decode_int16_def createBuffer_def split: sum.splits)




lemma decode_int16_silent_sample: "decode_int16 ''AAA='' = Inr [0]"
  by (simp add: decode_int16_def b64_value_def b64_alphabet_def Int16Array_def)

lemma onmessage_flagged:
  assumes "interrupted m"
  shows "onmessage t m st =
    (case inlineData m of
       None \<Rightarrow> (None, interruption_block st)
     | Some b \<Rightarrow>
         if b = [] then (None, interruption_block st)
         else (case decode_int16 b of
                 Inl e \<Rightarrow> (Some e, st)
               | Inr ws \<Rightarrow>
                   if ws = [] then (Some NotSupportedError, st)
                   else (None, interruption_block
                           (scheduling_block t
                              \<lparr>channelData = fill_channelData ws, sampleRate = 24000\<rparr> st))))"
  using assms
  by (simp add: onmessage_def decode_int16_def createBuffer_def split: option.split sum.split)

section \<open>The invariant of the component\<close>

lemma well_formed_alt:
  "well_formed st \<longleftrightarrow>
     (\<forall>s\<in>set (sourcesRef st). s < length (nodes st)) \<and> distinct (sourcesRef st)
     \<and> (\<forall>p. sessionPromiseRef st = Some p \<longrightarrow> p < length (promises st))
     \<and> 0 \<le> nextStartTimeRef st"
  by (simp add: well_formed_def list_all_iff split: option.split)

lemma well_formed_init: "well_formed init"
  by (simp add: well_formed_alt init_def)

lemma well_formed_cong:
  assumes "well_formed st" "sourcesRef st' = sourcesRef st" "nodes st' = nodes st"
    "sessionPromiseRef st' = sessionPromiseRef st" "length (promises st') = length (promises st)"
    "nextStartTimeRef st' = nextStartTimeRef st"
  shows "well_formed st'"
  using assms by (simp add: well_formed_alt)

lemma length_promises_promise_then: "length (promises (promise_then p r st)) = length (promises st)"
  by (simp add: promise_then_def Let_def split: promise_state.split)

lemma promise_then_other_fields:
  "sourcesRef (promise_then p r st) = sourcesRef st"
  "nodes (promise_then p r st) = nodes st"
  "sessionPromiseRef (promise_then p r st) = sessionPromiseRef st"
  "nextStartTimeRef (promise_then p r st) = nextStartTimeRef st"
  by (simp_all add: promise_then_def Let_def split: promise_state.split)

lemma well_formed_scheduling_block:
  assumes "well_formed st"
  shows "well_formed (scheduling_block t b st)"
proof -
  have "0 \<le> max (nextStartTimeRef st) t + duration b"
    using assms duration_nonneg [of b] by (simp add: well_formed_alt max_def)
  moreover have "\<forall>s\<in>set (sourcesRef st). s < Suc (length (nodes st))"
    using assms by (auto simp: well_formed_alt)
  moreover have "length (nodes st) \<notin> set (sourcesRef st)"
    using assms by (auto simp: well_formed_alt)
  moreover have "sessionPromiseRef (scheduling_block t b st) = sessionPromiseRef st"
    "promises (scheduling_block t b st) = promises st"
    by (simp_all add: scheduling_block_def Let_def)
  ultimately show ?thesis
    using assms
    by (simp add: well_formed_alt nodes_scheduling_block nextStartTimeRef_scheduling_block
        sourcesRef_scheduling_block Set_add_def)
qed

lemma well_formed_interruption_block:
  assumes "well_formed st"
  shows "well_formed (interruption_block st)"
  using assms
  by (simp add: well_formed_alt interruption_block_def addLog_def Let_def)

lemma well_formed_onmessage:
  assumes "well_formed st"
  shows "well_formed (snd (onmessage t m st))"
  using assms
  by (simp add: onmessage_def well_formed_scheduling_block well_formed_interruption_block
      split: option.split sum.split)

lemma well_formed_step: "well_formed st \<Longrightarrow> well_formed (step e st)"
proof (cases e)
  case (StartSession k mic)
  assume "well_formed st"
  then show ?thesis
    by (cases mic)
      (auto simp: StartSession startSession_def setters well_formed_alt Let_def less_Suc_eq)
next
  case StopSession
  assume "well_formed st"
  then show ?thesis
    by (simp add: StopSession well_formed_alt stopSession_fields)
next
  case ToggleMute
  assume "well_formed st"
  then show ?thesis
    by (simp add: ToggleMute well_formed_alt toggleMute_def setters)
next
  case (AudioProcess m f)
  assume "well_formed st"
  then show ?thesis
    by (auto simp: AudioProcess onaudioprocess_def Let_def split: option.split
        intro: well_formed_cong [OF _ promise_then_other_fields(1,2,3)
                 length_promises_promise_then promise_then_other_fields(4)])
next
  case (Resolve p)
  assume "well_formed st"
  then show ?thesis
    by (simp add: Resolve well_formed_alt resolve_def Let_def)
next
  case (Reject p)
  assume "well_formed st"
  then show ?thesis
    by (simp add: Reject well_formed_alt reject_def)
next
  case OnOpen
  assume "well_formed st"
  then show ?thesis
    by (simp add: OnOpen well_formed_alt onopen_def setters)
next
  case (OnMessage t m)
  assume "well_formed st"
  then show ?thesis
    by (simp add: OnMessage well_formed_onmessage)
next
  case OnClose
  assume "well_formed st"
  then show ?thesis
    by (simp add: OnClose well_formed_alt onclose_def setters)
next
  case OnError
  assume "well_formed st"
  then show ?thesis
    by (simp add: OnError well_formed_alt onerror_def setters)
next
  case (OnEnded s)
  assume "well_formed st"
  then show ?thesis
    by (auto simp: OnEnded well_formed_alt onended_def Set_delete_def distinct_removeAll)
next
  case Unmount
  assume "well_formed st"
  then show ?thesis
    by (simp add: Unmount well_formed_alt unmount_fields)
qed

lemma well_formed_run: "well_formed st \<Longrightarrow> well_formed (run es st)"
  by (induction es arbitrary: st) (simp_all add: well_formed_step)

lemma well_formed_reachable: "well_formed (run es init)"
  by (rule well_formed_run [OF well_formed_init])

lemma sourcesRef_scheduling_block_fresh:
  assumes "\<forall>s\<in>set (sourcesRef st). s < length (nodes st)"
  shows "sourcesRef (scheduling_block t b st) = sourcesRef st @ [length (nodes st)]"
proof -
  from assms have "length (nodes st) \<notin> set (sourcesRef st)" by auto
  then show ?thesis
    by (simp add: sourcesRef_scheduling_block Set_add_def)
qed

lemma interruption_block_after:
  assumes wf: "\<forall>s\<in>set (sourcesRef st). s < length (nodes st)"
    and n: "nodes st1 = nodes st @ extra"
    and src: "set (sourcesRef st1) = set (sourcesRef st) \<union> {length (nodes st)..<length (nodes st1)}"
  shows "sourcesRef (interruption_block st1) = []"
    and "nextStartTimeRef (interruption_block st1) = 0"
    and "length (nodes st) \<le> length (nodes (interruption_block st1))"
    and "\<forall>s\<in>set (sourcesRef st). s < length (nodes st)
           \<and> nodes (interruption_block st1) ! s = (nodes st ! s)\<lparr>stopped := True\<rparr>"
    and "\<forall>i<length (nodes st). i \<notin> set (sourcesRef st)
           \<longrightarrow> nodes (interruption_block st1) ! i = nodes st ! i"
    and "\<forall>i<length (nodes (interruption_block st1)). length (nodes st) \<le> i
           \<longrightarrow> stopped (nodes (interruption_block st1) ! i)"
proof -
  let ?ns = "nodes (interruption_block st1)"
  have len: "length ?ns = length (nodes st1)"
    by (simp add: interruption_block_fields length_foldl_stop_node)
  have nth: "?ns ! i = (if i \<in> set (sourcesRef st1) then (nodes st1 ! i)\<lparr>stopped := True\<rparr>
                         else nodes st1 ! i)" if "i < length (nodes st1)" for i
    using that by (simp add: interruption_block_fields nth_foldl_stop_node)
  show "sourcesRef (interruption_block st1) = []" "nextStartTimeRef (interruption_block st1) = 0"
    by (simp_all add: interruption_block_fields)
  show "length (nodes st) \<le> length ?ns"
    by (simp add: len n)
  show "\<forall>s\<in>set (sourcesRef st). s < length (nodes st)
           \<and> ?ns ! s = (nodes st ! s)\<lparr>stopped := True\<rparr>"
  proof
    fix s assume s: "s \<in> set (sourcesRef st)"
    with wf have lt: "s < length (nodes st)" by blast
    then have "s < length (nodes st1)" by (simp add: n)
    moreover from s have "s \<in> set (sourcesRef st1)" by (simp add: src)
    ultimately have "?ns ! s = (nodes st1 ! s)\<lparr>stopped := True\<rparr>"
      by (simp add: nth)
    with lt show "s < length (nodes st) \<and> ?ns ! s = (nodes st ! s)\<lparr>stopped := True\<rparr>"
      by (simp add: n nth_append)
  qed
  show "\<forall>i<length (nodes st). i \<notin> set (sourcesRef st) \<longrightarrow> ?ns ! i = nodes st ! i"
  proof (intro allI impI)
    fix i assume i: "i < length (nodes st)" "i \<notin> set (sourcesRef st)"
    then have "i \<notin> set (sourcesRef st1)" by (simp add: src)
    moreover from i have "i < length (nodes st1)" by (simp add: n)
    ultimately have "?ns ! i = nodes st1 ! i" by (simp add: nth)
    with i show "?ns ! i = nodes st ! i" by (simp add: n nth_append)
  qed
  show "\<forall>i<length ?ns. length (nodes st) \<le> i \<longrightarrow> stopped (?ns ! i)"
  proof (intro allI impI)
    fix i assume i: "i < length ?ns" "length (nodes st) \<le> i"
    then have "i < length (nodes st1)" by (simp add: len)
    moreover from this i have "i \<in> set (sourcesRef st1)" by (simp add: src)
    ultimately show "stopped (?ns ! i)" by (simp add: nth)
  qed
qed

subsection \<open>A new session after the end of a call\<close>

text \<open>
  \<^verbatim>\<open>stopSession\<close> writes neither \<^verbatim>\<open>nextStartTimeRef\<close> nor \<^verbatim>\<open>sourcesRef\<close>; only the interruption
  block resets them. A session started after the end of a call has a new output context,
  whose clock begins at zero, and its first chunk is started at the time the old session
  had reached.
\<close>

lemma restart_starts_at_old_time:
  "ui_run [StartSession True Granted, OnOpen, Resolve 0,
          OnMessage 30 \<lparr>inlineData = Some ''AAA='', interrupted = False\<rparr>, StopSession,
          StartSession True Granted,
          OnMessage 0 \<lparr>inlineData = Some ''AAA='', interrupted = False\<rparr>] init
     = Some (run [StartSession True Granted, OnOpen, Resolve 0,
          OnMessage 30 \<lparr>inlineData = Some ''AAA='', interrupted = False\<rparr>, StopSession,
          StartSession True Granted,
          OnMessage 0 \<lparr>inlineData = Some ''AAA='', interrupted = False\<rparr>] init)
   \<and> map startWhen (nodes (run [StartSession True Granted, OnOpen, Resolve 0,
          OnMessage 30 \<lparr>inlineData = Some ''AAA='', interrupted = False\<rparr>, StopSession,
          StartSession True Granted,
          OnMessage 0 \<lparr>inlineData = Some ''AAA='', interrupted = False\<rparr>] init))
     = [30, 30 + 1 / 24000]"
  by (simp add: onmessage_silent_sample scheduling_block_def stopSession_def stopSession_run_def
      close_ref_def AudioContext_close_def promise_then_def startSession_def onopen_def
      resolve_def setters Set_add_def duration_def Let_def init_def)

section \<open>The claims\<close>

text \<open>
  C1. For every decoded buffer the scheduling block first raises \<^verbatim>\<open>nextStartTimeRef\<close> to the
  clock time when it has fallen behind, starts the new node at that value, advances
  \<^verbatim>\<open>nextStartTimeRef\<close> by the duration of the buffer and puts the node into the active set.
  In a sequence of buffers, a buffer that arrives no later than the end of the one before
  it starts exactly at that end (no gap, no overlap); one that arrives later starts at its
  arrival time; and no buffer starts before the clock time at which it is handled. The
  handler runs exactly this block on every message whose payload decodes to at least one
  sample, whether or not the message also carries the interruption flag; the interruption
  block follows it when the flag is set.
\<close>

theorem gap_free_scheduling:
  "nodes (scheduling_block currentTime buffer st) =
     nodes st @ [\<lparr>node_buffer = buffer, startWhen = max (nextStartTimeRef st) currentTime,
                  stopped = False\<rparr>]
   \<and> nextStartTimeRef (scheduling_block currentTime buffer st) =
       max (nextStartTimeRef st) currentTime + duration buffer
   \<and> length (nodes st) \<in> set (sourcesRef (scheduling_block currentTime buffer st))
   \<and> length (start_times arrivals st) = length arrivals
   \<and> (Suc n < length arrivals
        \<and> fst (arrivals ! Suc n) \<le> start_times arrivals st ! n + duration (snd (arrivals ! n))
      \<longrightarrow> start_times arrivals st ! Suc n
            = start_times arrivals st ! n + duration (snd (arrivals ! n)))
   \<and> (Suc n < length arrivals
        \<and> start_times arrivals st ! n + duration (snd (arrivals ! n)) < fst (arrivals ! Suc n)
      \<longrightarrow> start_times arrivals st ! Suc n = fst (arrivals ! Suc n))
   \<and> (n < length arrivals \<longrightarrow> fst (arrivals ! n) \<le> start_times arrivals st ! n)
   \<and> (inlineData message = Some base64Audio \<and> base64Audio \<noteq> []
        \<and> decode_int16 base64Audio = Inr dataInt16 \<and> dataInt16 \<noteq> []
      \<longrightarrow> onmessage currentTime message st =
            (None,
             if interrupted message
             then interruption_block
                    (scheduling_block currentTime
                       \<lparr>channelData = fill_channelData dataInt16, sampleRate = 24000\<rparr> st)
             else scheduling_block currentTime
                    \<lparr>channelData = fill_channelData dataInt16, sampleRate = 24000\<rparr> st))"
proof -
  have "length (nodes st) \<in> set (sourcesRef (scheduling_block currentTime buffer st))"
    by (simp add: sourcesRef_scheduling_block Set_add_def)
  moreover have "start_times arrivals st ! Suc n
      = start_times arrivals st ! n + duration (snd (arrivals ! n))"
    if "Suc n < length arrivals"
      "fst (arrivals ! Suc n) \<le> start_times arrivals st ! n + duration (snd (arrivals ! n))"
    using that by (simp add: start_times_Suc)
  moreover have "start_times arrivals st ! Suc n = fst (arrivals ! Suc n)"
    if "Suc n < length arrivals"
      "start_times arrivals st ! n + duration (snd (arrivals ! n)) < fst (arrivals ! Suc n)"
    using that by (simp add: start_times_Suc)
  moreover have "onmessage currentTime message st =
            (None,
             if interrupted message
             then interruption_block
                    (scheduling_block currentTime
                       \<lparr>channelData = fill_channelData dataInt16, sampleRate = 24000\<rparr> st)
             else scheduling_block currentTime
                    \<lparr>channelData = fill_channelData dataInt16, sampleRate = 24000\<rparr> st)"
    if "inlineData message = Some base64Audio" "base64Audio \<noteq> []"
      "decode_int16 base64Audio = Inr dataInt16" "dataInt16 \<noteq> []"
    using that by (rule onmessage_decoded)
  ultimately show ?thesis
    by (simp add: nodes_scheduling_block nextStartTimeRef_scheduling_block
        length_start_times start_times_not_past)
qed

theorem gap_free_scheduling_witness:
  "start_times [(0, \<lparr>channelData = replicate 24000 0, sampleRate = 24000\<rparr>),
                (1 / 4, \<lparr>channelData = replicate 12000 0, sampleRate = 24000\<rparr>),
                (2, \<lparr>channelData = replicate 12000 0, sampleRate = 24000\<rparr>)] init ! 1
   = start_times [(0, \<lparr>channelData = replicate 24000 0, sampleRate = 24000\<rparr>),
                (1 / 4, \<lparr>channelData = replicate 12000 0, sampleRate = 24000\<rparr>),
                (2, \<lparr>channelData = replicate 12000 0, sampleRate = 24000\<rparr>)] init ! 0 + 1
   \<and> start_times [(0, \<lparr>channelData = replicate 24000 0, sampleRate = 24000\<rparr>),
                (1 / 4, \<lparr>channelData = replicate 12000 0, sampleRate = 24000\<rparr>),
                (2, \<lparr>channelData = replicate 12000 0, sampleRate = 24000\<rparr>)] init ! 2 = 2
   \<and> onmessage 3 \<lparr>inlineData = Some ''AAA='', interrupted = True\<rparr> init
     = (None, interruption_block (scheduling_block 3 \<lparr>channelData = [0], sampleRate = 24000\<rparr> init))
   \<and> onmessage 3 \<lparr>inlineData = Some ''AAA='', interrupted = False\<rparr> init
     = (None, scheduling_block 3 \<lparr>channelData = [0], sampleRate = 24000\<rparr> init)"
proof -
  let ?as = "[(0 :: real, \<lparr>channelData = replicate 24000 (0 :: real), sampleRate = 24000\<rparr>),
                (1 / 4, \<lparr>channelData = replicate 12000 0, sampleRate = 24000\<rparr>),
                (2, \<lparr>channelData = replicate 12000 0, sampleRate = 24000\<rparr>)]"
  have st: "start_times ?as init = [0, 1, 2]"
    by (simp add: start_times_Cons start_times_Nil nextStartTimeRef_scheduling_block
        init_def duration_def)
  have h1: "Suc 0 < length ?as
      \<and> fst (?as ! Suc 0) \<le> start_times ?as init ! 0 + duration (snd (?as ! 0))"
    unfolding st by (simp add: duration_def)
  have h2: "Suc 1 < length ?as
      \<and> start_times ?as init ! 1 + duration (snd (?as ! 1)) < fst (?as ! Suc 1)"
    unfolding st by (simp add: duration_def)
  have h3: "inlineData \<lparr>inlineData = Some ''AAA='', interrupted = f\<rparr> = Some ''AAA=''
      \<and> ''AAA='' \<noteq> [] \<and> decode_int16 ''AAA='' = Inr [0] \<and> [0 :: int16] \<noteq> []" for f
    by (simp add: decode_int16_silent_sample)
  have "start_times ?as init ! Suc 0 = start_times ?as init ! 0 + duration (snd (?as ! 0))"
    by (rule gap_free_scheduling [of 0 "snd (?as ! 0)" init ?as 0, THEN conjunct2, THEN conjunct2,
          THEN conjunct2, THEN conjunct2, THEN conjunct1, rule_format, OF h1])
  moreover have "start_times ?as init ! Suc 1 = fst (?as ! Suc 1)"
    by (rule gap_free_scheduling [of 0 "snd (?as ! 0)" init ?as 1, THEN conjunct2, THEN conjunct2,
          THEN conjunct2, THEN conjunct2, THEN conjunct2, THEN conjunct1, rule_format, OF h2])
  moreover note gap_free_scheduling [of 3 "snd (?as ! 0)" init ?as 0, THEN conjunct2, THEN conjunct2,
          THEN conjunct2, THEN conjunct2, THEN conjunct2, THEN conjunct2, THEN conjunct2,
          rule_format, OF h3 [of True]]
  moreover note gap_free_scheduling [of 3 "snd (?as ! 0)" init ?as 0, THEN conjunct2, THEN conjunct2,
          THEN conjunct2, THEN conjunct2, THEN conjunct2, THEN conjunct2, THEN conjunct2,
          rule_format, OF h3 [of False]]
  ultimately show ?thesis
    by (simp add: duration_def numeral_2_eq_2 fill_channelData_def)
qed

text \<open>
  C2, as the code has it. The handler reaches the interruption block after the audio part
  of the same message. In every state that a run of events reaches from the initial one,
  a flagged message that the handler completes stops every node of the active set, the
  node of its own chunk included, touches no other node, empties the set and resets
  \<^verbatim>\<open>nextStartTimeRef\<close> to zero. A flagged message whose chunk does not decode ends the
  handler with the exception before the interruption block: nothing is stopped or reset.
  With an empty set nothing is stopped and the set stays empty, but the block still adds a
  log line and resets \<^verbatim>\<open>nextStartTimeRef\<close>.
\<close>

theorem interruption_stops_active_sources:
  assumes "st = run events init" and "interrupted message"
  shows "(fst (onmessage t message st) = None \<longrightarrow>
        sourcesRef (snd (onmessage t message st)) = []
      \<and> nextStartTimeRef (snd (onmessage t message st)) = 0
      \<and> length (nodes st) \<le> length (nodes (snd (onmessage t message st)))
      \<and> (\<forall>s\<in>set (sourcesRef st). s < length (nodes st)
            \<and> nodes (snd (onmessage t message st)) ! s = (nodes st ! s)\<lparr>stopped := True\<rparr>)
      \<and> (\<forall>i<length (nodes st). i \<notin> set (sourcesRef st)
            \<longrightarrow> nodes (snd (onmessage t message st)) ! i = nodes st ! i)
      \<and> (\<forall>i<length (nodes (snd (onmessage t message st))). length (nodes st) \<le> i
            \<longrightarrow> stopped (nodes (snd (onmessage t message st)) ! i)))
    \<and> (fst (onmessage t message st) \<noteq> None \<longrightarrow> snd (onmessage t message st) = st)
    \<and> (inlineData message = None \<or> inlineData message = Some []
        \<longrightarrow> onmessage t message st = (None, interruption_block st))
    \<and> (inlineData message = Some base64Audio \<and> base64Audio \<noteq> []
          \<and> decode_int16 base64Audio = Inr dataInt16 \<and> dataInt16 \<noteq> []
        \<longrightarrow> onmessage t message st =
              (None, interruption_block
                 (scheduling_block t
                    \<lparr>channelData = fill_channelData dataInt16, sampleRate = 24000\<rparr> st)))
    \<and> (inlineData message = Some base64Audio \<and> base64Audio \<noteq> []
          \<and> decode_int16 base64Audio = Inl e
        \<longrightarrow> onmessage t message st = (Some e, st))
    \<and> (sourcesRef st = []
        \<longrightarrow> interruption_block st = addLog ''Interrupted'' (st\<lparr>nextStartTimeRef := 0\<rparr>))"
proof -
  have wf: "\<forall>s\<in>set (sourcesRef st). s < length (nodes st)"
    using well_formed_reachable [of events] assms(1) by (simp add: well_formed_alt)
  note eq = onmessage_flagged [OF assms(2), of t st]
  note plain = interruption_block_after [OF wf, of st "[]"]
  have sched: "set (sourcesRef (scheduling_block t b st))
      = set (sourcesRef st) \<union> {length (nodes st)..<length (nodes (scheduling_block t b st))}" for b
    by (simp add: sourcesRef_scheduling_block_fresh [OF wf] nodes_scheduling_block)
  note after = interruption_block_after [OF wf nodes_scheduling_block sched]
  let ?P = "\<lambda>st'. sourcesRef st' = [] \<and> nextStartTimeRef st' = 0
      \<and> length (nodes st) \<le> length (nodes st')
      \<and> (\<forall>s\<in>set (sourcesRef st). s < length (nodes st)
            \<and> nodes st' ! s = (nodes st ! s)\<lparr>stopped := True\<rparr>)
      \<and> (\<forall>i<length (nodes st). i \<notin> set (sourcesRef st) \<longrightarrow> nodes st' ! i = nodes st ! i)
      \<and> (\<forall>i<length (nodes st'). length (nodes st) \<le> i \<longrightarrow> stopped (nodes st' ! i))"
  have P0: "?P (interruption_block st)"
    using plain by simp
  have P1: "?P (interruption_block (scheduling_block t b st))" for b
    using after [of b] by blast
  have first: "fst (onmessage t message st) = None \<longrightarrow> ?P (snd (onmessage t message st))"
    unfolding eq using P0 P1
    by (simp split: option.split sum.split)
  have second: "fst (onmessage t message st) \<noteq> None \<longrightarrow> snd (onmessage t message st) = st"
    unfolding eq by (simp split: option.split sum.split)
  have third: "inlineData message = None \<or> inlineData message = Some []
        \<longrightarrow> onmessage t message st = (None, interruption_block st)"
    unfolding eq by auto
  have fourth: "inlineData message = Some base64Audio \<and> base64Audio \<noteq> []
          \<and> decode_int16 base64Audio = Inr dataInt16 \<and> dataInt16 \<noteq> []
        \<longrightarrow> onmessage t message st =
              (None, interruption_block
                 (scheduling_block t
                    \<lparr>channelData = fill_channelData dataInt16, sampleRate = 24000\<rparr> st))"
    unfolding eq by auto
  have fifth: "inlineData message = Some base64Audio \<and> base64Audio \<noteq> []
          \<and> decode_int16 base64Audio = Inl e
        \<longrightarrow> onmessage t message st = (Some e, st)"
    unfolding eq by auto
  have sixth: "sourcesRef st = []
        \<longrightarrow> interruption_block st = addLog ''Interrupted'' (st\<lparr>nextStartTimeRef := 0\<rparr>)"
    by (simp add: interruption_block_empty)
  from first second third fourth fifth sixth show ?thesis
    by (intro conjI)
qed

theorem interruption_stops_active_sources_witness:
  "sourcesRef (run [OnMessage 0 \<lparr>inlineData = Some ''AAA='', interrupted = False\<rparr>] init) = [0]
   \<and> fst (onmessage 0 \<lparr>inlineData = Some ''AAA='', interrupted = True\<rparr>
        (run [OnMessage 0 \<lparr>inlineData = Some ''AAA='', interrupted = False\<rparr>] init)) = None
   \<and> stopped (nodes (snd (onmessage 0 \<lparr>inlineData = Some ''AAA='', interrupted = True\<rparr>
        (run [OnMessage 0 \<lparr>inlineData = Some ''AAA='', interrupted = False\<rparr>] init))) ! 0)
   \<and> stopped (nodes (snd (onmessage 0 \<lparr>inlineData = Some ''AAA='', interrupted = True\<rparr>
        (run [OnMessage 0 \<lparr>inlineData = Some ''AAA='', interrupted = False\<rparr>] init))) ! 1)
   \<and> sourcesRef (snd (onmessage 0 \<lparr>inlineData = Some ''AAA='', interrupted = True\<rparr>
        (run [OnMessage 0 \<lparr>inlineData = Some ''AAA='', interrupted = False\<rparr>] init))) = []"
proof -
  let ?es = "[OnMessage 0 \<lparr>inlineData = Some ''AAA='', interrupted = False\<rparr>]"
  let ?m = "\<lparr>inlineData = Some ''AAA='', interrupted = True\<rparr>"
  let ?st' = "snd (onmessage 0 ?m (run ?es init))"
  have src: "sourcesRef (run ?es init) = [0]" and len: "length (nodes (run ?es init)) = 1"
    by (simp_all add: onmessage_silent_sample sourcesRef_scheduling_block nodes_scheduling_block
        Set_add_def init_def)
  have flag: "interrupted ?m" by simp
  have ok: "fst (onmessage 0 ?m (run ?es init)) = None"
    by (simp add: onmessage_decoded [OF _ _ decode_int16_silent_sample])
  have len': "length (nodes ?st') = 2"
    by (simp add: onmessage_decoded [OF _ _ decode_int16_silent_sample] onmessage_silent_sample
        interruption_block_fields length_foldl_stop_node nodes_scheduling_block init_def)
  note inst = interruption_stops_active_sources [OF refl flag, of 0 ?es, THEN conjunct1,
      rule_format, OF ok]
  from inst have "sourcesRef ?st' = []"
    and old: "\<forall>s\<in>set (sourcesRef (run ?es init)). s < length (nodes (run ?es init))
          \<and> nodes ?st' ! s = (nodes (run ?es init) ! s)\<lparr>stopped := True\<rparr>"
    and new: "\<forall>i<length (nodes ?st'). length (nodes (run ?es init)) \<le> i
          \<longrightarrow> stopped (nodes ?st' ! i)"
    by blast+
  moreover from old src have "stopped (nodes ?st' ! 0)" by simp
  moreover from new [rule_format, of 1] len len' have "stopped (nodes ?st' ! 1)" by simp
  ultimately show ?thesis
    using src ok by simp
qed

text \<open>
  C2 as stated fails: after a chunk has played to its end the active set is empty and
  \<^verbatim>\<open>nextStartTimeRef\<close> is the end of that chunk; an interruption then changes the
  scheduler state.
\<close>

theorem interruption_on_empty_set_resets_time:
  "sourcesRef (onended 0 (snd (onmessage 0 \<lparr>inlineData = Some ''AAA='', interrupted = False\<rparr> init))) = []
   \<and> nextStartTimeRef
       (onended 0 (snd (onmessage 0 \<lparr>inlineData = Some ''AAA='', interrupted = False\<rparr> init)))
      = 1 / 24000
   \<and> nextStartTimeRef
       (snd (onmessage 1 \<lparr>inlineData = None, interrupted = True\<rparr>
          (onended 0 (snd (onmessage 0 \<lparr>inlineData = Some ''AAA='', interrupted = False\<rparr> init)))))
      = 0
   \<and> snd (onmessage 1 \<lparr>inlineData = None, interrupted = True\<rparr>
          (onended 0 (snd (onmessage 0 \<lparr>inlineData = Some ''AAA='', interrupted = False\<rparr> init))))
      \<noteq> onended 0 (snd (onmessage 0 \<lparr>inlineData = Some ''AAA='', interrupted = False\<rparr> init))"
proof -
  let ?s = "onended 0 (snd (onmessage 0 \<lparr>inlineData = Some ''AAA='', interrupted = False\<rparr> init))"
  have a: "sourcesRef ?s = []" and b: "nextStartTimeRef ?s = 1 / 24000"
    by (simp_all add: onmessage_silent_sample onended_def Set_delete_def
        sourcesRef_scheduling_block nextStartTimeRef_scheduling_block Set_add_def init_def
        duration_def)
  have c: "nextStartTimeRef (snd (onmessage 1 \<lparr>inlineData = None, interrupted = True\<rparr> ?s)) = 0"
    by (simp add: onmessage_interruption_only interruption_block_fields)
  from b c have "snd (onmessage 1 \<lparr>inlineData = None, interrupted = True\<rparr> ?s) \<noteq> ?s"
    by (metis zero_neq_one divide_eq_0_iff zero_neq_numeral)
  with a b c show ?thesis by blast
qed

text \<open>
  C3. For samples in \<open>[-1, 1]\<close> whose scaled values fit into 16 bits, decoding the payload
  of \<^verbatim>\<open>createPcmBlob\<close> gives as many samples, each within \<open>1 / 32768\<close> of the original,
  and encoding the decoded samples gives the same chunk again: the only loss is the
  truncation to 16 bits. The base64 decoding is the one modelled from the spec.
\<close>

theorem pcm_round_trip:
  assumes "\<forall>x\<in>set s. - 1 \<le> x \<and> x \<le> 1 \<and> - 32768 \<le> truncate_number (x * 32768)
             \<and> truncate_number (x * 32768) \<le> 32767"
  shows "\<exists>ys. decode (data (createPcmBlob s)) = Inr ys \<and> length ys = length s
           \<and> (\<forall>i<length s. \<bar>ys ! i - s ! i\<bar> \<le> 1 / 32768)
           \<and> createPcmBlob ys = createPcmBlob s"
proof -
  define ys where "ys = map (\<lambda>x. real_of_int (ToInt16 (x * 32768)) / 32768) s"
  have dec: "decode (data (createPcmBlob s)) = Inr ys"
    by (simp only: ys_def decode_createPcmBlob)
  have len: "length ys = length s"
    by (simp add: ys_def)
  have err: "\<bar>ys ! i - s ! i\<bar> \<le> 1 / 32768" if "i < length s" for i
  proof -
    let ?x = "s ! i"
    from that have "?x \<in> set s" by simp
    with assms have "- 32768 \<le> truncate_number (?x * 32768)"
      "truncate_number (?x * 32768) \<le> 32767" by simp_all
    then have "ToInt16 (?x * 32768) = truncate_number (?x * 32768)"
      by (rule ToInt16_in_range)
    then have "ys ! i = real_of_int (truncate_number (?x * 32768)) / 32768"
      using that by (simp add: ys_def)
    then have "ys ! i - ?x = (real_of_int (truncate_number (?x * 32768)) - ?x * 32768) / 32768"
      by (simp add: diff_divide_distrib)
    then have "\<bar>ys ! i - ?x\<bar> = \<bar>real_of_int (truncate_number (?x * 32768)) - ?x * 32768\<bar> / 32768"
      by (simp only: abs_divide)
    also have "\<dots> \<le> 1 / 32768"
      using truncate_number_error [of "?x * 32768"] by (intro divide_right_mono) simp_all
    finally show ?thesis .
  qed
  have "fill_int16 ys = fill_int16 s"
  proof -
    have "ys = fill_channelData (fill_int16 s)"
      by (simp only: ys_def fill_channelData_fill_int16)
    then show ?thesis
      by (simp only: fill_int16_fill_channelData)
  qed
  then have "createPcmBlob ys = createPcmBlob s"
    by (simp add: createPcmBlob_def)
  with dec len err show ?thesis by blast
qed

theorem pcm_round_trip_witness:
  "\<exists>ys. decode (data (createPcmBlob [0, 1 / 2, - 1, 1 / 3])) = Inr ys \<and> length ys = 4
     \<and> \<bar>ys ! 3 - 1 / 3\<bar> \<le> 1 / 32768
     \<and> createPcmBlob ys = createPcmBlob [0, 1 / 2, - 1, 1 / 3]"
proof -
  have "\<forall>x\<in>set [0, 1 / 2, - 1, 1 / 3 :: real]. - 1 \<le> x \<and> x \<le> 1
      \<and> - 32768 \<le> truncate_number (x * 32768) \<and> truncate_number (x * 32768) \<le> 32767"
    by (simp add: truncate_number_def)
  from pcm_round_trip [OF this] obtain ys where
    "decode (data (createPcmBlob [0, 1 / 2, - 1, 1 / 3])) = Inr ys" "length ys = 4"
    "\<forall>i<4. \<bar>ys ! i - [0, 1 / 2, - 1, 1 / 3] ! i\<bar> \<le> 1 / 32768"
    "createPcmBlob ys = createPcmBlob [0, 1 / 2, - 1, 1 / 3]"
    by auto
  moreover from this(3) [rule_format, of 3] have "\<bar>ys ! 3 - 1 / 3\<bar> \<le> 1 / 32768"
    by simp
  ultimately show ?thesis by blast
qed

text \<open>
  C4, as the code has it. While the promise of the session is pending, the callback of an
  unmuted capture registers one \<^verbatim>\<open>then\<close> callback for each frame: the frames are queued on
  the promise, none is sent yet, and when the connection is established all of them are
  sent, in capture order. Frames are dropped, not queued, when no promise is held.
\<close>

theorem frames_while_connecting_are_queued:
  "(sessionPromiseRef st = Some p \<and> p < length (promises st)
      \<and> pstate (promises st ! p) = Pending
    \<longrightarrow> reactions (promises (capture_all False frames st) ! p)
          = reactions (promises st ! p) @ map (\<lambda>f. SendRealtimeInput (createPcmBlob f)) frames
        \<and> calls (promises (capture_all False frames st) ! p) = calls (promises st ! p)
        \<and> calls (promises (resolve p (capture_all False frames st)) ! p)
          = calls (promises st ! p) @ reactions (promises st ! p)
            @ map (\<lambda>f. SendRealtimeInput (createPcmBlob f)) frames)
   \<and> (sessionPromiseRef st = None \<longrightarrow> capture_all m frames st = st)"
proof -
  have "reactions (promises (capture_all False frames st) ! p)
          = reactions (promises st ! p) @ map (\<lambda>f. SendRealtimeInput (createPcmBlob f)) frames
        \<and> calls (promises (capture_all False frames st) ! p) = calls (promises st ! p)
        \<and> calls (promises (resolve p (capture_all False frames st)) ! p)
          = calls (promises st ! p) @ reactions (promises st ! p)
            @ map (\<lambda>f. SendRealtimeInput (createPcmBlob f)) frames"
    if h: "sessionPromiseRef st = Some p" "p < length (promises st)"
      "pstate (promises st ! p) = Pending"
  proof -
    let ?st' = "capture_all False frames st"
    note eq = capture_all_pending [OF h, of frames]
    have r: "reactions (promises ?st' ! p)
        = reactions (promises st ! p) @ map (\<lambda>f. SendRealtimeInput (createPcmBlob f)) frames"
      and c: "calls (promises ?st' ! p) = calls (promises st ! p)"
      and pend: "p < length (promises ?st')" "pstate (promises ?st' ! p) = Pending"
      using h by (simp_all add: eq)
    from resolve_pending(1) [OF pend] r c show ?thesis
      by simp
  qed
  then show ?thesis
    by (simp add: capture_all_no_promise)
qed

theorem frames_while_connecting_are_queued_witness:
  "calls (promises (resolve 0 (capture_all False [[0], [1 / 2]] (startSession True Granted init))) ! 0)
     = [SendRealtimeInput (createPcmBlob [0]), SendRealtimeInput (createPcmBlob [1 / 2])]"
proof -
  let ?st = "startSession True Granted init"
  have h: "sessionPromiseRef ?st = Some 0 \<and> 0 < length (promises ?st)
      \<and> pstate (promises ?st ! 0) = Pending"
    by (simp add: startSession_granted init_def)
  have c: "calls (promises ?st ! 0) = []" "reactions (promises ?st ! 0) = []"
    by (simp_all add: startSession_granted init_def)
  from frames_while_connecting_are_queued [of ?st 0 "[[0], [1 / 2]]", THEN conjunct1, rule_format, OF h]
  show ?thesis
    by (simp add: c)
qed

text \<open>
  C4 as stated fails: a frame captured while the promise is pending is sent to the session
  once the promise is fulfilled.
\<close>

theorem frame_captured_while_connecting_is_delivered:
  "pstate (promises (registered_onaudioprocess init [0] (startSession True Granted init)) ! 0) = Pending
   \<and> calls (promises (resolve 0
         (registered_onaudioprocess init [0] (startSession True Granted init))) ! 0)
      = [SendRealtimeInput \<lparr>data = ''AAA='', mimeType = ''audio/pcm;rate=16000''\<rparr>]"
  by (simp add: registered_onaudioprocess_def onaudioprocess_def promise_then_def resolve_def
      startSession_granted createPcmBlob_silent_sample init_def Let_def)







text \<open>
  C7 does not hold on the code. The session is started unmuted, the connection opens, and
  the mute button sets \<^verbatim>\<open>isMuted\<close>. The capture callback of the session still sees the
  \<^verbatim>\<open>isMuted\<close> of the render in which the session was started, so the next frame is encoded
  and sent. In general the mute button and the capture callback do not see each other:
  the callback does the same before and after a toggle.
\<close>

theorem mute_toggle_does_not_reach_capture_callback:
  "isMuted (toggleMute (onopen (resolve 0 (startSession True Granted init)))) = True
   \<and> calls (promises (toggleMute (onopen (resolve 0 (startSession True Granted init)))) ! 0) = []
   \<and> calls (promises (registered_onaudioprocess init [0]
        (toggleMute (onopen (resolve 0 (startSession True Granted init))))) ! 0)
      = [SendRealtimeInput \<lparr>data = ''AAA='', mimeType = ''audio/pcm;rate=16000''\<rparr>]
   \<and> registered_onaudioprocess at_start inputData (toggleMute st)
      = toggleMute (registered_onaudioprocess at_start inputData st)"
proof -
  have "registered_onaudioprocess at_start inputData (toggleMute st)
      = toggleMute (registered_onaudioprocess at_start inputData st)"
    by (simp add: registered_onaudioprocess_def onaudioprocess_toggleMute)
  then show ?thesis
    by (simp add: registered_onaudioprocess_def onaudioprocess_def promise_then_def resolve_def
        toggleMute_def onopen_def setters startSession_granted createPcmBlob_silent_sample
        init_def Let_def)
qed

text \<open>
  C8, as the code has it. The scheduling block never starts a node before the clock time
  and leaves \<^verbatim>\<open>nextStartTimeRef\<close> at or after it. The interruption block sets
  \<^verbatim>\<open>nextStartTimeRef\<close> to zero, whatever the clock is, and the next scheduling raises it to
  the clock before it is used.
\<close>

theorem no_buffer_scheduled_in_the_past:
  "currentTime \<le> startWhen (last (nodes (scheduling_block currentTime buffer st)))
   \<and> currentTime \<le> nextStartTimeRef (scheduling_block currentTime buffer st)
   \<and> nextStartTimeRef (interruption_block st) = 0
   \<and> startWhen (last (nodes (scheduling_block currentTime buffer (interruption_block st))))
      = max 0 currentTime"
proof -
  have "currentTime \<le> max (nextStartTimeRef st) currentTime + duration buffer"
    using duration_nonneg [of buffer] by (simp add: max_def)
  then show ?thesis
    by (simp add: nodes_scheduling_block nextStartTimeRef_scheduling_block
        interruption_block_fields)
qed

text \<open>
  C8 as stated fails at the interruption handler: at clock time 5, after a chunk was
  scheduled, an interruption sets \<^verbatim>\<open>nextStartTimeRef\<close> to zero, below the clock.
\<close>

theorem interruption_sets_time_below_clock:
  "5 \<le> nextStartTimeRef (snd (onmessage 5 \<lparr>inlineData = Some ''AAA='', interrupted = False\<rparr> init))
   \<and> nextStartTimeRef
       (snd (onmessage 5 \<lparr>inlineData = None, interrupted = True\<rparr>
          (snd (onmessage 5 \<lparr>inlineData = Some ''AAA='', interrupted = False\<rparr> init)))) < 5"
  by (simp add: onmessage_silent_sample onmessage_interruption_only interruption_block_fields
      nextStartTimeRef_scheduling_block init_def duration_def)

text \<open>
  C9, as the code has it. When the payload does not decode to 16-bit samples, the handler
  ends with the exception before it has changed anything: the state is the one before the
  message, also when the message carries the interruption flag, and a later message is
  handled as if the failed one had not arrived. A payload whose bytes are odd in number
  raises the RangeError of the \<^verbatim>\<open>Int16Array\<close> constructor.
\<close>

theorem decode_failure_aborts_handler:
  "(inlineData m = Some b64 \<and> b64 \<noteq> [] \<and> decode_int16 b64 = Inl e
      \<longrightarrow> onmessage t m st = (Some e, st)
        \<and> onmessage t' m' (snd (onmessage t m st)) = onmessage t' m' st)
   \<and> (base64ToUint8Array b64 = Inr bytes \<and> odd (length bytes)
      \<longrightarrow> decode_int16 b64 = Inl RangeError)"
proof -
  have "onmessage t m st = (Some e, st)"
    if "inlineData m = Some b64" "b64 \<noteq> []" "decode_int16 b64 = Inl e"
    using that
    by (auto simp: onmessage_def decode_int16_def split: sum.splits)
  moreover have "decode_int16 b64 = Inl RangeError"
    if "base64ToUint8Array b64 = Inr bytes" "odd (length bytes)"
    using that by (simp add: decode_int16_def Int16Array_def odd_iff_mod_2_eq_one)
  ultimately show ?thesis by simp
qed

theorem decode_failure_aborts_handler_witness:
  "onmessage 0 \<lparr>inlineData = Some ''AA=='', interrupted = True\<rparr>
      (snd (onmessage 0 \<lparr>inlineData = Some ''AAA='', interrupted = False\<rparr> init))
    = (Some RangeError, snd (onmessage 0 \<lparr>inlineData = Some ''AAA='', interrupted = False\<rparr> init))"
proof -
  have "inlineData \<lparr>inlineData = Some ''AA=='', interrupted = True\<rparr> = Some ''AA=='' \<and> ''AA=='' \<noteq> []
      \<and> decode_int16 ''AA=='' = Inl RangeError"
    by (simp add: decode_int16_def Int16Array_def b64_value_def b64_alphabet_def)
  from decode_failure_aborts_handler [THEN conjunct1, rule_format, OF this, THEN conjunct1]
  show ?thesis .
qed

text \<open>
  C9 as stated fails: a payload of one byte makes the handler raise a RangeError.
\<close>

theorem odd_length_chunk_raises:
  "fst (onmessage 0 \<lparr>inlineData = Some ''AA=='', interrupted = False\<rparr> init) = Some RangeError"
  by (simp add: onmessage_one_byte)

text \<open>
  C10. Each stored element is the truncation of \<open>s * 32768\<close> toward zero, reduced modulo
  \<open>2^16\<close> into the signed range, and the payload is the base64 of these elements' bytes.
  The truncation is toward zero: the truncated value is no larger in magnitude than the
  scaled sample, less than one away from it and of its sign, so that \<open>-1/65536\<close> and
  \<open>1/65536\<close> are stored as \<open>0\<close> and \<open>-3/65536\<close> as \<open>-1\<close>. Nothing is clamped: the sample
  \<open>1.0\<close> is stored as \<open>-32768\<close>, and the out-of-range samples \<open>1.5\<close> and \<open>-1.5\<close> wrap to
  \<open>-16384\<close> and \<open>16384\<close>.
\<close>

theorem encode_wraps_without_clamping:
  "map sint (fill_int16 samples) =
     map (\<lambda>s. (truncate_number (s * 32768) + 32768) mod 65536 - 32768) samples
   \<and> data (createPcmBlob samples) = btoa (uint8_view (fill_int16 samples))
   \<and> - 32768 \<le> sint (store_int16 (s * 32768)) \<and> sint (store_int16 (s * 32768)) \<le> 32767
   \<and> sint (store_int16 (1 * 32768)) = - 32768
   \<and> sint (store_int16 (3 / 2 * 32768)) = - 16384
   \<and> sint (store_int16 (- 3 / 2 * 32768)) = 16384
   \<and> \<bar>real_of_int (truncate_number (s * 32768))\<bar> \<le> \<bar>s * 32768\<bar>
   \<and> \<bar>s * 32768\<bar> < \<bar>real_of_int (truncate_number (s * 32768))\<bar> + 1
   \<and> 0 \<le> real_of_int (truncate_number (s * 32768)) * (s * 32768)
   \<and> sint (store_int16 (- (1 / 65536) * 32768)) = 0
   \<and> sint (store_int16 (1 / 65536 * 32768)) = 0
   \<and> sint (store_int16 (- (3 / 65536) * 32768)) = - 1
   \<and> sint (store_int16 (3 / 65536 * 32768)) = 1
   \<and> sint (store_int16 (- (65537 / 65536) * 32768)) = - 32768
   \<and> sint (store_int16 (65537 / 65536 * 32768)) = - 32768"
proof -
  have "map sint (fill_int16 samples) =
      map (\<lambda>s. (truncate_number (s * 32768) + 32768) mod 65536 - 32768) samples"
    by (simp add: fill_int16_def sint_store_int16 ToInt16_formula)
  moreover have "data (createPcmBlob samples) = btoa (uint8_view (fill_int16 samples))"
    by (simp add: createPcmBlob_def)
  moreover have "- 32768 \<le> sint (store_int16 (s * 32768))"
    "sint (store_int16 (s * 32768)) \<le> 32767"
    using ToInt16_range [of "s * 32768"] by (simp_all add: sint_store_int16)
  moreover have "sint (store_int16 (1 * 32768)) = - 32768"
    by (simp add: sint_store_int16 ToInt16_def truncate_number_def)
  moreover have "sint (store_int16 (3 / 2 * 32768)) = - 16384"
    by (simp add: sint_store_int16 ToInt16_def truncate_number_def)
  moreover have "sint (store_int16 (- 3 / 2 * 32768)) = 16384"
    by (simp add: sint_store_int16 ToInt16_def truncate_number_def)
  moreover have "sint (store_int16 (- (1 / 65536) * 32768)) = 0"
    by (simp add: sint_store_int16 ToInt16_def truncate_number_cases)
  moreover have "sint (store_int16 (1 / 65536 * 32768)) = 0"
    by (simp add: sint_store_int16 ToInt16_def truncate_number_def)
  moreover have "sint (store_int16 (- (3 / 65536) * 32768)) = - 1"
    by (simp add: sint_store_int16 ToInt16_def truncate_number_cases)
  moreover have "sint (store_int16 (3 / 65536 * 32768)) = 1"
    by (simp add: sint_store_int16 ToInt16_def truncate_number_def)
  moreover have "sint (store_int16 (- (65537 / 65536) * 32768)) = - 32768"
    by (simp add: sint_store_int16 ToInt16_def truncate_number_cases)
  moreover have "sint (store_int16 (65537 / 65536 * 32768)) = - 32768"
    by (simp add: sint_store_int16 ToInt16_def truncate_number_def)
  ultimately show ?thesis
    using truncate_number_toward_zero [of "s * 32768"] by simp
qed

end
